theory Spec2Isabelle
  imports Complex_Main
begin

section \<open>JavaScript values and DOM data read by the menu code\<close>

text \<open>
  A JavaScript number is an IEEE 754 double. A finite double is modelled by the real
  number it denotes, so that coordinates may be fractional. The sum and the difference
  of two numbers are the exact result rounded to the nearest double, ties to the even
  significand (53 bits, with the fixed spacing \<open>2^-1074\<close> of the subnormal range). The
  code below only adds and subtracts pixel coordinates, which stay far from the overflow
  threshold \<open>2^1024\<close>; the infinities are not values of the model.
\<close>

definition pow2 :: "int \<Rightarrow> real" where
  "pow2 k = (if 0 \<le> k then 2 ^ nat k else 1 / 2 ^ nat (- k))"

text \<open>The binary exponent of a number other than zero: \<open>2^e \<le> |x| < 2^(e+1)\<close>.\<close>

definition expo :: "real \<Rightarrow> int" where
  "expo x = \<lfloor>log 2 \<bar>x\<bar>\<rfloor>"

definition roundHalfEven :: "real \<Rightarrow> int" where
  "roundHalfEven r =
     (let f = \<lfloor>r\<rfloor>
      in if r - of_int f < 1 / 2 then f
         else if r - of_int f > 1 / 2 then f + 1
         else if even f then f else f + 1)"

text \<open>Rounding to the nearest double: \<open>u\<close> is the spacing of the doubles around \<open>x\<close>.\<close>

definition fl :: "real \<Rightarrow> real" where
  "fl x =
     (if x = 0 then 0
      else (let u = pow2 (max (expo x) (- 1022) - 52)
            in u * of_int (roundHalfEven (x / u))))"

text \<open>The operators \<open>+\<close> and \<open>-\<close> of JavaScript on numbers.\<close>

definition js_add :: "real \<Rightarrow> real \<Rightarrow> real" where
  "js_add a b = fl (a + b)"

definition js_sub :: "real \<Rightarrow> real \<Rightarrow> real" where
  "js_sub a b = fl (a - b)"



text \<open>
  A numeric property read from a DOM event: a property the event does not have reads as
  \<open>undefined\<close>, otherwise it is a number, possibly \<open>NaN\<close>.
\<close>

datatype jsnum = JUndefined | JNaN | JNum real

datatype error = TypeError

record touch =
  touch_clientX :: jsnum
  touch_clientY :: jsnum

text \<open>
  One record for every event object the code receives (\<open>TriggerEvent\<close>, \<open>Event\<close>,
  \<open>KeyboardEvent\<close>). \<open>changedTouches\<close> is \<open>None\<close> when the event has no such property,
  \<open>ctrlKey\<close> likewise. The two flags record \<open>stopPropagation()\<close> and \<open>preventDefault()\<close>.
\<close>

record dom_event =
  ev_type :: string
  clientX :: jsnum
  clientY :: jsnum
  changedTouches :: "touch list option"
  button :: jsnum
  ctrlKey :: "bool option"
  key :: string
  propagationStopped :: bool
  defaultPrevented :: bool

record position =
  pos_x :: real
  pos_y :: real

record node =
  offsetWidth :: real
  offsetHeight :: real

record window_dims =
  innerWidth :: real
  innerHeight :: real

section \<open>utils.ts\<close>

text \<open>
  The statement \<open>if (!v || v < 0) v = 0\<close> of \<open>getMousePosition\<close>, and the number \<open>v\<close>
  holds after it: \<open>!v\<close> is true of \<open>undefined\<close>, \<open>NaN\<close> and \<open>0\<close>.
\<close>

definition guardCoord :: "jsnum \<Rightarrow> real" where
  "guardCoord v =
     (case v of
        JUndefined \<Rightarrow> 0
      | JNaN \<Rightarrow> 0
      | JNum n \<Rightarrow> (if n = 0 \<or> n < 0 then 0 else n))"

text \<open>
  \<open>touch[0].clientX\<close> on an empty \<open>changedTouches\<close> reads a property of \<open>undefined\<close>
  and throws.
\<close>

definition getMousePosition :: "dom_event \<Rightarrow> error + position" where
  "getMousePosition e =
     (case changedTouches e of
        None \<Rightarrow> Inr \<lparr>pos_x = guardCoord (clientX e), pos_y = guardCoord (clientY e)\<rparr>
      | Some ts \<Rightarrow>
          (case ts of
             [] \<Rightarrow> Inl TypeError
           | t # _ \<Rightarrow>
               Inr \<lparr>pos_x = guardCoord (touch_clientX t),
                    pos_y = guardCoord (touch_clientY t)\<rparr>))"

datatype 'a BooleanPredicate = PBool bool | PFn "'a \<Rightarrow> bool"

definition getPredicateValue :: "'a BooleanPredicate \<Rightarrow> 'a \<Rightarrow> bool" where
  "getPredicateValue predicate payload =
     (case predicate of PFn f \<Rightarrow> f payload | PBool b \<Rightarrow> b)"

section \<open>Menu: state and reducer\<close>

text \<open>
  \<open>triggerEvent\<close> is \<open>None\<close> for the placeholder \<open>{}\<close> of the initial state;
  \<open>propsFromTrigger\<close> is \<open>None\<close> for \<open>null\<close> and \<open>undefined\<close>.
\<close>

record 'p MenuState =
  state_x :: real
  state_y :: real
  visible :: bool
  triggerEvent :: "dom_event option"
  propsFromTrigger :: "'p option"
  willLeave :: bool

text \<open>\<open>Partial<MenuState>\<close>: a field is \<open>None\<close> when the object literal does not have it.\<close>

record 'p Partial_MenuState =
  part_x :: "real option"
  part_y :: "real option"
  part_visible :: "bool option"
  part_triggerEvent :: "dom_event option option"
  part_propsFromTrigger :: "'p option option"
  part_willLeave :: "bool option"

definition no_fields :: "'p Partial_MenuState" where
  "no_fields =
     \<lparr>part_x = None, part_y = None, part_visible = None, part_triggerEvent = None,
      part_propsFromTrigger = None, part_willLeave = None\<rparr>"

datatype 'p payload =
  Obj "'p Partial_MenuState"
| Fn "'p MenuState \<Rightarrow> 'p Partial_MenuState"

text \<open>The object spread \<open>{ ...state, ...u }\<close>.\<close>

definition spread :: "'p MenuState \<Rightarrow> 'p Partial_MenuState \<Rightarrow> 'p MenuState" where
  "spread s u =
     \<lparr>state_x = (case part_x u of None \<Rightarrow> state_x s | Some v \<Rightarrow> v),
      state_y = (case part_y u of None \<Rightarrow> state_y s | Some v \<Rightarrow> v),
      visible = (case part_visible u of None \<Rightarrow> visible s | Some v \<Rightarrow> v),
      triggerEvent = (case part_triggerEvent u of None \<Rightarrow> triggerEvent s | Some v \<Rightarrow> v),
      propsFromTrigger =
        (case part_propsFromTrigger u of None \<Rightarrow> propsFromTrigger s | Some v \<Rightarrow> v),
      willLeave = (case part_willLeave u of None \<Rightarrow> willLeave s | Some v \<Rightarrow> v)\<rparr>"

definition reducer :: "'p MenuState \<Rightarrow> 'p payload \<Rightarrow> 'p MenuState" where
  "reducer s pl = spread s (case pl of Fn f \<Rightarrow> f s | Obj u \<Rightarrow> u)"

definition initialState :: "'p MenuState" where
  "initialState =
     \<lparr>state_x = 0, state_y = 0, visible = False, triggerEvent = None,
      propsFromTrigger = None, willLeave = False\<rparr>"

section \<open>Menu: boundary check\<close>

text \<open>
  \<open>checkBoundaries\<close> closes over \<open>nodeRef.current\<close>, the prop \<open>disableBoundariesCheck\<close>
  and \<open>window\<close>; they are its first three arguments. \<open>x -= x + offsetWidth - innerWidth\<close>
  is \<open>x = x - ((x + offsetWidth) - innerWidth)\<close>, each operation rounded.
\<close>

definition checkBoundaries ::
  "node option \<Rightarrow> bool \<Rightarrow> window_dims \<Rightarrow> real \<Rightarrow> real \<Rightarrow> position" where
  "checkBoundaries current disableCheck win x0 y0 =
     (case current of
        None \<Rightarrow> \<lparr>pos_x = x0, pos_y = y0\<rparr>
      | Some n \<Rightarrow>
          (if \<not> disableCheck then
             \<lparr>pos_x =
                (if js_add x0 (offsetWidth n) > innerWidth win
                 then js_sub x0 (js_sub (js_add x0 (offsetWidth n)) (innerWidth win)) else x0),
              pos_y =
                (if js_add y0 (offsetHeight n) > innerHeight win
                 then js_sub y0 (js_sub (js_add y0 (offsetHeight n)) (innerHeight win)) else y0)\<rparr>
           else \<lparr>pos_x = x0, pos_y = y0\<rparr>))"

section \<open>Menu: the component and its surroundings\<close>

text \<open>
  A key of the event manager's table. \<open>EVENT\<close> is a const enum, so \<open>EVENT.HIDE_ALL\<close> is
  the number \<open>0\<close> at run time. The declaration of \<open>MenuId\<close> (in \<open>../types\<close>) is not
  among the sources: an id is a string or a number here, which covers whatever it admits.
\<close>

datatype js_key = KStr string | KNum int

definition EVENT_HIDE_ALL :: js_key where
  "EVENT_HIDE_ALL = KNum 0"

definition hideOnEvents :: "string list" where
  "hideOnEvents = [''resize'', ''contextmenu'', ''click'', ''scroll'', ''blur'']"

text \<open>
  The props the component reads. \<open>onVisibilityChange\<close> says whether a function was
  passed (its calls are logged in the world), \<open>forwardedRef\<close> whether the caller passed a
  \<open>ref\<close>: the panel carries \<open>ref ?? nodeRef\<close>.
\<close>

record MenuProps =
  menu_id :: js_key
  disableBoundariesCheck :: bool
  preventDefaultOnKeydown :: bool
  onVisibilityChange :: bool
  forwardedRef :: bool

text \<open>
  \<open>itemTracker\<close> (from \<open>../hooks\<close>) and \<open>menuController\<close> (from \<open>./keyboardController\<close>)
  are used by the menu only through the calls below. Their joint state is the type
  parameter \<open>'c\<close>, their methods are parameters.
\<close>

record 'c nav_ops =
  tracker_clear :: "'c \<Rightarrow> 'c"
  controller_init :: "'c \<Rightarrow> 'c"
  moveUp :: "'c \<Rightarrow> 'c"
  moveDown :: "'c \<Rightarrow> 'c"
  openSubmenu :: "'c \<Rightarrow> bool \<times> 'c"
  closeSubmenu :: "'c \<Rightarrow> 'c"
  matchKeys :: "dom_event \<Rightarrow> 'c \<Rightarrow> dom_event \<times> 'c"

text \<open>
  One mounted \<open>Menu\<close>: its props, the reducer state, the refs \<open>nodeRef\<close>,
  \<open>wasVisible\<close> and \<open>visibilityId\<close>, and the navigation state. \<open>menuNode\<close> is the DOM
  node the panel gets when it is rendered (its size is the layout's business).
\<close>

record ('p, 'c) menu_inst =
  props :: MenuProps
  state :: "'p MenuState"
  nodeRef :: "node option"
  menuNode :: node
  nav :: 'c
  wasVisible :: "bool option"
  visibilityId :: "nat option"

type_synonym inst_id = nat

text \<open>
  The closures a menu hands out: \<open>show\<close> and \<open>hide\<close> to the event manager,
  \<open>handleKeyboard\<close> and \<open>hide\<close> to \<open>window\<close>. A closure is named by the component it
  belongs to; the props are fixed while a component is mounted, so the closures of its
  renders do not differ.
\<close>

datatype subscriber = ShowOf inst_id | HideOf inst_id

datatype listener = KeyboardOf inst_id | HideOn inst_id

fun owner :: "listener \<Rightarrow> inst_id" where
  "owner (KeyboardOf i) = i"
| "owner (HideOn i) = i"

text \<open>
  The world the menus live in: the mounted components, the event manager's table, the
  listeners of \<open>window\<close>, its size, the pending timeouts (id, component, and whether the
  callback has an \<open>onVisibilityChange\<close> to call) and the log of \<open>onVisibilityChange\<close>
  calls.
\<close>

record ('p, 'c) world =
  menus :: "inst_id \<rightharpoonup> ('p, 'c) menu_inst"
  eventList :: "(js_key \<times> subscriber) list"
  windowListeners :: "(string \<times> listener) list"
  window :: window_dims
  timers :: "(nat \<times> inst_id \<times> bool) list"
  nextTimerId :: nat
  visibilityLog :: "(inst_id \<times> bool) list"

definition empty_world :: "window_dims \<Rightarrow> ('p, 'c) world" where
  "empty_world win =
     \<lparr>menus = Map.empty, eventList = [], windowListeners = [], window = win,
      timers = [], nextTimerId = 1, visibilityLog = []\<rparr>"

definition upd_inst ::
  "inst_id \<Rightarrow> (('p, 'c) menu_inst \<Rightarrow> ('p, 'c) menu_inst) \<Rightarrow> ('p, 'c) world \<Rightarrow> ('p, 'c) world" where
  "upd_inst i f w =
     (case menus w i of
        None \<Rightarrow> w
      | Some m \<Rightarrow> w\<lparr>menus := (menus w)(i \<mapsto> f m)\<rparr>)"

text \<open>The handlers registered under a key, in the order of their registration.\<close>

definition handlers_of :: "'k \<Rightarrow> ('k \<times> 'h) list \<Rightarrow> 'h list" where
  "handlers_of k tab = map snd (filter (\<lambda>kh. fst kh = k) tab)"

subsection \<open>The event manager\<close>

text \<open>
  The event manager of \<open>../core\<close> is not among the sources; the spec calls it ``a small
  pub/sub event manager used to show/hide menus by id''. Its table is \<open>eventList\<close>, the
  handlers in the order of their subscription.
\<close>

text \<open>
  Modelled from the spec: \<open>eventManager.on\<close>, missing from the sources, subscribes a
  handler to an event.
\<close>

definition on :: "js_key \<Rightarrow> subscriber \<Rightarrow> ('p, 'c) world \<Rightarrow> ('p, 'c) world" where
  "on k h w = w\<lparr>eventList := eventList w @ [(k, h)]\<rparr>"

text \<open>
  Modelled from the spec: \<open>eventManager.off\<close>, missing from the sources, removes a
  handler from an event.
\<close>

definition off :: "js_key \<Rightarrow> subscriber \<Rightarrow> ('p, 'c) world \<Rightarrow> ('p, 'c) world" where
  "off k h w = w\<lparr>eventList := removeAll (k, h) (eventList w)\<rparr>"

subsection \<open>The window\<close>

text \<open>\<open>addEventListener\<close> ignores a listener that is already registered for the type.\<close>

definition addEventListener :: "string \<Rightarrow> listener \<Rightarrow> ('p, 'c) world \<Rightarrow> ('p, 'c) world" where
  "addEventListener ty l w =
     (if (ty, l) \<in> set (windowListeners w) then w
      else w\<lparr>windowListeners := windowListeners w @ [(ty, l)]\<rparr>)"

definition removeEventListener :: "string \<Rightarrow> listener \<Rightarrow> ('p, 'c) world \<Rightarrow> ('p, 'c) world" where
  "removeEventListener ty l w = w\<lparr>windowListeners := removeAll (ty, l) (windowListeners w)\<rparr>"

definition setTimeout :: "inst_id \<Rightarrow> bool \<Rightarrow> ('p, 'c) world \<Rightarrow> nat \<times> ('p, 'c) world" where
  "setTimeout i cb w =
     (nextTimerId w,
      w\<lparr>timers := timers w @ [(nextTimerId w, i, cb)], nextTimerId := Suc (nextTimerId w)\<rparr>)"

definition clearTimeout :: "nat option \<Rightarrow> ('p, 'c) world \<Rightarrow> ('p, 'c) world" where
  "clearTimeout tid w =
     (case tid of
        None \<Rightarrow> w
      | Some t \<Rightarrow> w\<lparr>timers := filter (\<lambda>e. fst e \<noteq> t) (timers w)\<rparr>)"

subsection \<open>The effects of the component\<close>

text \<open>The render: the panel, which carries \<open>ref ?? nodeRef\<close>, exists while the menu is visible.\<close>

definition render_panel :: "('p, 'c) menu_inst \<Rightarrow> ('p, 'c) menu_inst" where
  "render_panel m =
     m\<lparr>nodeRef :=
         (if visible (state m) \<and> \<not> forwardedRef (props m) then Some (menuNode m) else None)\<rparr>"

text \<open>Effect ``collect menu items for keyboard navigation''.\<close>

definition effect_collectItems :: "'c nav_ops \<Rightarrow> ('p, 'c) menu_inst \<Rightarrow> ('p, 'c) menu_inst" where
  "effect_collectItems ops m =
     (if \<not> visible (state m) then m\<lparr>nav := tracker_clear ops (nav m)\<rparr>
      else m\<lparr>nav := controller_init ops (nav m)\<rparr>)"

text \<open>
  Effect of lines 131-134: \<open>if (state.visible) setState(checkBoundaries(state.x, state.y))\<close>.
  The update changes neither \<open>visible\<close> nor a dependency of another effect.
\<close>

definition position_update :: "position \<Rightarrow> 'p payload" where
  "position_update q = Obj (no_fields\<lparr>part_x := Some (pos_x q), part_y := Some (pos_y q)\<rparr>)"

definition effect_checkBoundaries :: "window_dims \<Rightarrow> ('p, 'c) menu_inst \<Rightarrow> ('p, 'c) menu_inst" where
  "effect_checkBoundaries win m =
     (if visible (state m) then
        m\<lparr>state :=
            reducer (state m)
              (position_update
                 (checkBoundaries (nodeRef m) (disableBoundariesCheck (props m)) win
                    (state_x (state m)) (state_y (state m))))\<rparr>
      else m)"

text \<open>Effect ``subscribe dom events'' and its cleanup.\<close>

definition effect_domEvents :: "inst_id \<Rightarrow> bool \<Rightarrow> ('p, 'c) world \<Rightarrow> ('p, 'c) world" where
  "effect_domEvents i vis w =
     (if vis then
        fold (\<lambda>ev. addEventListener ev (HideOn i)) hideOnEvents
          (addEventListener ''keydown'' (KeyboardOf i) w)
      else w)"

definition cleanup_domEvents :: "inst_id \<Rightarrow> ('p, 'c) world \<Rightarrow> ('p, 'c) world" where
  "cleanup_domEvents i w =
     fold (\<lambda>ev. removeEventListener ev (HideOn i)) hideOnEvents
       (removeEventListener ''keydown'' (KeyboardOf i) w)"

text \<open>Effect ``subscribe event manager'' and its cleanup.\<close>

definition effect_eventManager :: "inst_id \<Rightarrow> js_key \<Rightarrow> ('p, 'c) world \<Rightarrow> ('p, 'c) world" where
  "effect_eventManager i mid w = on EVENT_HIDE_ALL (HideOf i) (on mid (ShowOf i) w)"

definition cleanup_eventManager :: "inst_id \<Rightarrow> js_key \<Rightarrow> ('p, 'c) world \<Rightarrow> ('p, 'c) world" where
  "cleanup_eventManager i mid w = off EVENT_HIDE_ALL (HideOf i) (off mid (ShowOf i) w)"

text \<open>
  What React does after a render in which \<open>state.visible\<close> has changed: the panel is
  attached or detached, the cleanup of the effect that depends on \<open>state.visible\<close> and
  has one runs, then the three effects that depend on it run in the order of the source.
\<close>

definition run_effects :: "'c nav_ops \<Rightarrow> inst_id \<Rightarrow> ('p, 'c) world \<Rightarrow> ('p, 'c) world" where
  "run_effects ops i w =
     (case menus w i of
        None \<Rightarrow> w
      | Some m \<Rightarrow>
          effect_domEvents i (visible (state m))
            (upd_inst i (effect_checkBoundaries (window w))
               (upd_inst i (effect_collectItems ops)
                  (cleanup_domEvents i (upd_inst i render_panel w)))))"

text \<open>
  \<open>setState\<close>, the dispatch of \<open>useReducer\<close>, with the render and the effects that follow
  it. Of the dependencies of the effects only \<open>state.visible\<close> can change.
\<close>

definition setState :: "'c nav_ops \<Rightarrow> inst_id \<Rightarrow> 'p payload \<Rightarrow> ('p, 'c) world \<Rightarrow> ('p, 'c) world" where
  "setState ops i pl w =
     (case menus w i of
        None \<Rightarrow> w
      | Some m \<Rightarrow>
          (let w1 = upd_inst i (\<lambda>m. m\<lparr>state := reducer (state m) pl\<rparr>) w
           in if visible (reducer (state m) pl) \<noteq> visible (state m)
              then run_effects ops i w1 else w1))"

subsection \<open>show and hide\<close>

record 'p ShowContextMenuParams =
  sp_event :: dom_event
  sp_props :: "'p option"
  sp_position :: "position option"

text \<open>The object \<open>show\<close> passes to \<open>setState\<close>.\<close>

definition show_update :: "position \<Rightarrow> dom_event \<Rightarrow> 'p option \<Rightarrow> 'p payload" where
  "show_update q ev pr =
     Obj \<lparr>part_x = Some (pos_x q), part_y = Some (pos_y q), part_visible = Some True,
          part_triggerEvent = Some (Some ev), part_propsFromTrigger = Some pr,
          part_willLeave = Some False\<rparr>"

text \<open>
  The end of \<open>show\<close>: \<open>onVisibilityChange(true)\<close> and \<open>wasVisible.current = true\<close>, unless
  \<open>wasVisible.current\<close> is already true or no callback was passed.
\<close>

definition notify_shown :: "inst_id \<Rightarrow> ('p, 'c) world \<Rightarrow> ('p, 'c) world" where
  "notify_shown i w =
     (case menus w i of
        None \<Rightarrow> w
      | Some m \<Rightarrow>
          (if wasVisible m \<noteq> Some True \<and> onVisibilityChange (props m) then
             upd_inst i (\<lambda>m. m\<lparr>wasVisible := Some True\<rparr>)
               (w\<lparr>visibilityLog := visibilityLog w @ [(i, True)]\<rparr>)
           else w))"

definition stopPropagation :: "dom_event \<Rightarrow> dom_event" where
  "stopPropagation e = e\<lparr>propagationStopped := True\<rparr>"

text \<open>\<open>position || getMousePosition(event)\<close>, after \<open>event.stopPropagation()\<close>.\<close>

definition show_position :: "'p ShowContextMenuParams \<Rightarrow> error + position" where
  "show_position params =
     (case sp_position params of
        Some p \<Rightarrow> Inr p
      | None \<Rightarrow> getMousePosition (stopPropagation (sp_event params)))"

text \<open>
  \<open>show\<close>, the handler subscribed under the id of the menu. It throws when the position
  has to be read from the event and cannot be; nothing has changed then.
\<close>

definition "show" ::
  "'c nav_ops \<Rightarrow> inst_id \<Rightarrow> 'p ShowContextMenuParams \<Rightarrow> ('p, 'c) world \<Rightarrow> error + ('p, 'c) world" where
  "show ops i params w =
     (case menus w i of
        None \<Rightarrow> Inr w
      | Some m \<Rightarrow>
          (case show_position params of
             Inl err \<Rightarrow> Inl err
           | Inr p \<Rightarrow>
               Inr (notify_shown i
                     (clearTimeout (visibilityId m)
                        (setState ops i
                           (show_update
                              (checkBoundaries (nodeRef m) (disableBoundariesCheck (props m))
                                 (window w) (pos_x p) (pos_y p))
                              (stopPropagation (sp_event params)) (sp_props params))
                           w)))))"

text \<open>The condition of the early return of \<open>hide\<close>.\<close>

definition hide_ignores :: "dom_event option \<Rightarrow> bool" where
  "hide_ignores e =
     (case e of
        None \<Rightarrow> False
      | Some ev \<Rightarrow>
          (button ev = JNum 2 \<or> ctrlKey ev = Some True) \<and> ev_type ev \<noteq> ''contextmenu'')"

text \<open>The functional update \<open>hide\<close> passes to \<open>setState\<close>.\<close>

definition hide_update :: "'p payload" where
  "hide_update =
     Fn (\<lambda>s. no_fields\<lparr>part_visible := Some (if visible s then False else visible s)\<rparr>)"

text \<open>
  \<open>hide\<close>, the handler subscribed under \<open>EVENT.HIDE_ALL\<close> and registered on \<open>window\<close>:
  the early return, the state update, and the timeout that reports the change.
\<close>

definition hide ::
  "'c nav_ops \<Rightarrow> inst_id \<Rightarrow> dom_event option \<Rightarrow> ('p, 'c) world \<Rightarrow> ('p, 'c) world" where
  "hide ops i e w =
     (if hide_ignores e then w
      else
        (case menus w i of
           None \<Rightarrow> w
         | Some m \<Rightarrow>
             (let (tid, w1) = setTimeout i (onVisibilityChange (props m)) (setState ops i hide_update w)
              in upd_inst i (\<lambda>m. m\<lparr>visibilityId := Some tid\<rparr>) w1)))"

text \<open>The callback of the timeout set by \<open>hide\<close>.\<close>

definition fire_timer :: "nat \<Rightarrow> ('p, 'c) world \<Rightarrow> ('p, 'c) world" where
  "fire_timer t w =
     (case map_of (timers w) t of
        None \<Rightarrow> w
      | Some (i, cb) \<Rightarrow>
          upd_inst i (\<lambda>m. m\<lparr>wasVisible := Some False\<rparr>)
            (w\<lparr>timers := filter (\<lambda>e. fst e \<noteq> t) (timers w),
               visibilityLog := (if cb then visibilityLog w @ [(i, False)] else visibilityLog w)\<rparr>))"

subsection \<open>The keyboard handler\<close>

definition preventDefault :: "bool \<Rightarrow> dom_event \<Rightarrow> dom_event" where
  "preventDefault preventOnKeydown e =
     (if preventOnKeydown then e\<lparr>defaultPrevented := True\<rparr> else e)"

definition handleKeyboard ::
  "'c nav_ops \<Rightarrow> inst_id \<Rightarrow> dom_event \<Rightarrow> ('p, 'c) world \<Rightarrow> dom_event \<times> ('p, 'c) world" where
  "handleKeyboard ops i e w =
     (case menus w i of
        None \<Rightarrow> (e, w)
      | Some m \<Rightarrow>
          (if key e = ''Enter'' \<or> key e = '' '' then
             (let (opened, c) = openSubmenu ops (nav m);
                  w1 = upd_inst i (\<lambda>m. m\<lparr>nav := c\<rparr>) w
              in (e, if \<not> opened then hide ops i None w1 else w1))
           else if key e = ''Escape'' then (e, hide ops i None w)
           else if key e = ''ArrowUp'' then
             (preventDefault (preventDefaultOnKeydown (props m)) e,
              upd_inst i (\<lambda>m. m\<lparr>nav := moveUp ops (nav m)\<rparr>) w)
           else if key e = ''ArrowDown'' then
             (preventDefault (preventDefaultOnKeydown (props m)) e,
              upd_inst i (\<lambda>m. m\<lparr>nav := moveDown ops (nav m)\<rparr>) w)
           else if key e = ''ArrowRight'' then
             (preventDefault (preventDefaultOnKeydown (props m)) e,
              upd_inst i (\<lambda>m. m\<lparr>nav := snd (openSubmenu ops (nav m))\<rparr>) w)
           else if key e = ''ArrowLeft'' then
             (preventDefault (preventDefaultOnKeydown (props m)) e,
              upd_inst i (\<lambda>m. m\<lparr>nav := closeSubmenu ops (nav m)\<rparr>) w)
           else
             (let (e', c) = matchKeys ops e (nav m)
              in (e', upd_inst i (\<lambda>m. m\<lparr>nav := c\<rparr>) w))))"

subsection \<open>Calling the handlers\<close>

text \<open>
  What \<open>emit\<close> passes on: the parameters of a show request, or nothing (hide all).
  \<open>show\<close> destructures its argument, which throws on \<open>undefined\<close>; \<open>hide\<close> reads
  \<open>button\<close> and \<open>ctrlKey\<close> of its argument, which a parameter object does not have, so
  that it goes on as it does without an event.
\<close>

datatype 'p emit_arg = ShowArg "'p ShowContextMenuParams" | NoArg

definition call_subscriber ::
  "'c nav_ops \<Rightarrow> subscriber \<Rightarrow> 'p emit_arg \<Rightarrow> ('p, 'c) world \<Rightarrow> error + ('p, 'c) world" where
  "call_subscriber ops h a w =
     (case h of
        ShowOf i \<Rightarrow> (case a of ShowArg params \<Rightarrow> show ops i params w | NoArg \<Rightarrow> Inl TypeError)
      | HideOf i \<Rightarrow> Inr (hide ops i None w))"

text \<open>An exception of a handler ends the loop; what the earlier handlers did stays.\<close>

fun call_subscribers ::
  "'c nav_ops \<Rightarrow> subscriber list \<Rightarrow> 'p emit_arg \<Rightarrow> ('p, 'c) world
     \<Rightarrow> error option \<times> ('p, 'c) world" where
  "call_subscribers ops [] a w = (None, w)"
| "call_subscribers ops (h # hs) a w =
     (case call_subscriber ops h a w of
        Inl err \<Rightarrow> (Some err, w)
      | Inr w' \<Rightarrow> call_subscribers ops hs a w')"

text \<open>
  Modelled from the spec: \<open>eventManager.emit\<close>, missing from the sources, calls the
  handlers subscribed to the event, in the order of their subscription.
\<close>

definition emit ::
  "'c nav_ops \<Rightarrow> js_key \<Rightarrow> 'p emit_arg \<Rightarrow> ('p, 'c) world \<Rightarrow> error option \<times> ('p, 'c) world" where
  "emit ops k a w = call_subscribers ops (handlers_of k (eventList w)) a w"

definition call_listener ::
  "'c nav_ops \<Rightarrow> listener \<Rightarrow> dom_event \<Rightarrow> ('p, 'c) world \<Rightarrow> dom_event \<times> ('p, 'c) world" where
  "call_listener ops l e w =
     (case l of
        KeyboardOf i \<Rightarrow> handleKeyboard ops i e w
      | HideOn i \<Rightarrow> (e, hide ops i (Some e) w))"

fun call_listeners ::
  "'c nav_ops \<Rightarrow> listener list \<Rightarrow> dom_event \<Rightarrow> ('p, 'c) world \<Rightarrow> dom_event \<times> ('p, 'c) world" where
  "call_listeners ops [] e w = (e, w)"
| "call_listeners ops (l # ls) e w =
     (case call_listener ops l e w of (e', w') \<Rightarrow> call_listeners ops ls e' w')"

text \<open>An event reaches \<open>window\<close>: the listeners registered for its type are called.\<close>

definition dispatchEvent ::
  "'c nav_ops \<Rightarrow> dom_event \<Rightarrow> ('p, 'c) world \<Rightarrow> dom_event \<times> ('p, 'c) world" where
  "dispatchEvent ops e w =
     call_listeners ops (handlers_of (ev_type e) (windowListeners w)) e w"

subsection \<open>Mounting, unmounting, and the runs of the system\<close>

text \<open>
  Mounting renders the initial state and runs the four effects in the order of the
  source; unmounting runs the two cleanups.
\<close>

definition new_inst :: "MenuProps \<Rightarrow> node \<Rightarrow> 'c \<Rightarrow> ('p, 'c) menu_inst" where
  "new_inst p n c =
     \<lparr>props = p, state = initialState, nodeRef = None, menuNode = n, nav = c,
      wasVisible = None, visibilityId = None\<rparr>"

definition mount ::
  "'c nav_ops \<Rightarrow> inst_id \<Rightarrow> MenuProps \<Rightarrow> node \<Rightarrow> 'c \<Rightarrow> ('p, 'c) world \<Rightarrow> ('p, 'c) world" where
  "mount ops i p n c w =
     (case menus w i of
        Some m \<Rightarrow> w
      | None \<Rightarrow>
          effect_domEvents i (visible (initialState :: 'p MenuState))
            (upd_inst i (effect_checkBoundaries (window w))
               (upd_inst i (effect_collectItems ops)
                  (effect_eventManager i (menu_id p)
                     (w\<lparr>menus := (menus w)(i \<mapsto> new_inst p n c)\<rparr>)))))"

definition unmount :: "inst_id \<Rightarrow> ('p, 'c) world \<Rightarrow> ('p, 'c) world" where
  "unmount i w =
     (case menus w i of
        None \<Rightarrow> w
      | Some m \<Rightarrow>
          (cleanup_domEvents i (cleanup_eventManager i (menu_id (props m)) w))
            \<lparr>menus := (menus w)(i := None)\<rparr>)"

datatype ('p, 'c) input =
  Mount inst_id MenuProps node 'c
| Unmount inst_id
| Emit js_key "'p emit_arg"
| WindowEvent dom_event
| TimerFires nat
| Resize window_dims

fun step :: "'c nav_ops \<Rightarrow> ('p, 'c) input \<Rightarrow> ('p, 'c) world \<Rightarrow> ('p, 'c) world" where
  "step ops (Mount i p n c) w = mount ops i p n c w"
| "step ops (Unmount i) w = unmount i w"
| "step ops (Emit k a) w = snd (emit ops k a w)"
| "step ops (WindowEvent e) w = snd (dispatchEvent ops e w)"
| "step ops (TimerFires t) w = fire_timer t w"
| "step ops (Resize win) w = w\<lparr>window := win\<rparr>"

inductive reachable :: "'c nav_ops \<Rightarrow> ('p, 'c) world \<Rightarrow> bool" for ops :: "'c nav_ops" where
  reach_start: "reachable ops (empty_world win)"
| reach_step: "reachable ops w \<Longrightarrow> reachable ops (step ops inp w)"

section \<open>Observations on a world\<close>

text \<open>A component is mounted and its state is visible.\<close>

definition visible_in :: "('p, 'c) world \<Rightarrow> inst_id \<Rightarrow> bool" where
  "visible_in w i = (case menus w i of None \<Rightarrow> False | Some m \<Rightarrow> visible (state m))"

text \<open>The listeners the effect ``subscribe dom events'' of a menu registers.\<close>

definition menu_listeners :: "inst_id \<Rightarrow> (string \<times> listener) list" where
  "menu_listeners i = (''keydown'', KeyboardOf i) # map (\<lambda>ev. (ev, HideOn i)) hideOnEvents"

text \<open>The listeners on \<open>window\<close> are those of the visible menus, and no others.\<close>

definition listeners_inv :: "('p, 'c) world \<Rightarrow> bool" where
  "listeners_inv w =
     (\<forall>ty l. (ty, l) \<in> set (windowListeners w) \<longleftrightarrow>
        visible_in w (owner l) \<and> (ty, l) \<in> set (menu_listeners (owner l)))"

text \<open>The subscriptions of the event manager are those of the mounted menus, and no others.\<close>

definition subscriptions_inv :: "('p, 'c) world \<Rightarrow> bool" where
  "subscriptions_inv w =
     (\<forall>k h. (k, h) \<in> set (eventList w) \<longleftrightarrow>
        (\<exists>i m. menus w i = Some m \<and>
           ((k = menu_id (props m) \<and> h = ShowOf i) \<or> (k = EVENT_HIDE_ALL \<and> h = HideOf i))))"

text \<open>\<open>nodeRef\<close> holds the panel exactly while the panel is rendered with \<open>nodeRef\<close> as its ref.\<close>

definition node_attached :: "('p, 'c) menu_inst \<Rightarrow> bool" where
  "node_attached m =
     (nodeRef m =
        (if visible (state m) \<and> \<not> forwardedRef (props m) then Some (menuNode m) else None))"

definition nodes_inv :: "('p, 'c) world \<Rightarrow> bool" where
  "nodes_inv w = (\<forall>i m. menus w i = Some m \<longrightarrow> node_attached m)"

text \<open>
  What a transition that neither mounts nor unmounts leaves alone: the subscriptions, the
  set of mounted components and their props.
\<close>

definition same_frame :: "('p, 'c) world \<Rightarrow> ('p, 'c) world \<Rightarrow> bool" where
  "same_frame w w' =
     (eventList w' = eventList w \<and>
      (\<forall>j. case menus w j of
             None \<Rightarrow> menus w' j = None
           | Some m \<Rightarrow> (\<exists>m'. menus w' j = Some m' \<and> props m' = props m)))"

text \<open>
  \<open>moved S w w'\<close>: the transition from \<open>w\<close> to \<open>w'\<close> keeps the frame and the invariants,
  and makes no menu visible but those of \<open>S\<close>.
\<close>

definition moved :: "inst_id set \<Rightarrow> ('p, 'c) world \<Rightarrow> ('p, 'c) world \<Rightarrow> bool" where
  "moved S w w' =
     (same_frame w w' \<and> (listeners_inv w \<longrightarrow> listeners_inv w') \<and>
      (nodes_inv w \<longrightarrow> nodes_inv w') \<and>
      (\<forall>j. visible_in w' j \<longrightarrow> visible_in w j \<or> j \<in> S))"

text \<open>The menu a handler of the event manager can make visible.\<close>

fun shown_by :: "subscriber \<Rightarrow> inst_id set" where
  "shown_by (ShowOf i) = {i}"
| "shown_by (HideOf i) = {}"

definition world_inv :: "('p, 'c) world \<Rightarrow> bool" where
  "world_inv w = (listeners_inv w \<and> subscriptions_inv w \<and> nodes_inv w)"

text \<open>The node \<open>nodeRef\<close> holds while the panel is rendered: none when the caller passed a ref.\<close>

definition attached_node :: "('p, 'c) menu_inst \<Rightarrow> node option" where
  "attached_node m = (if forwardedRef (props m) then None else Some (menuNode m))"

section \<open>Submenu: setPosition\<close>

text \<open>
  The panel of a submenu: the four style properties \<open>setPosition\<close> writes, and the
  rectangle the browser lays the panel out in under a given style.
  \<open>getBoundingClientRect\<close> reads the rectangle of the style the panel has at the time of
  the call. Edges are real numbers: the code only compares them.
\<close>

record dom_rect =
  rect_left :: real
  rect_top :: real
  rect_right :: real
  rect_bottom :: real

record css_position =
  style_top :: string
  style_left :: string
  style_bottom :: string
  style_right :: string

record submenu_panel =
  panel_style :: css_position
  panel_layout :: "css_position \<Rightarrow> dom_rect"

definition getBoundingClientRect :: "submenu_panel \<Rightarrow> dom_rect" where
  "getBoundingClientRect nd = panel_layout nd (panel_style nd)"

text \<open>\<open>theme.spacing\<close> belongs to the UI kit; it is the parameter \<open>spacing\<close>.\<close>

definition sidePadding :: "(nat \<Rightarrow> string) \<Rightarrow> string" where
  "sidePadding spacing = ''calc(100% + '' @ spacing 3 @ '')''"

definition negativePadding :: "(nat \<Rightarrow> string) \<Rightarrow> string" where
  "negativePadding spacing = ''calc(-1 * '' @ spacing 2 @ '')''"

text \<open>
  \<open>setPosition\<close> on \<open>submenuNode.current\<close>. The rectangle is read first, before the
  style is reset, as in the source.
\<close>

definition setPosition ::
  "(nat \<Rightarrow> string) \<Rightarrow> window_dims \<Rightarrow> submenu_panel option \<Rightarrow> submenu_panel option" where
  "setPosition spacing win current =
     (case current of
        None \<Rightarrow> None
      | Some nd \<Rightarrow>
          (let rect = getBoundingClientRect nd;
               s1 = \<lparr>style_top = negativePadding spacing, style_left = sidePadding spacing,
                     style_bottom = ''unset'', style_right = ''unset''\<rparr>;
               s2 = (if rect_right rect > innerWidth win
                     then s1\<lparr>style_right := sidePadding spacing, style_left := ''unset''\<rparr>
                     else s1);
               s3 = (if rect_bottom rect > innerHeight win
                     then s2\<lparr>style_top := ''unset'', style_bottom := negativePadding spacing\<rparr>
                     else s2)
           in Some (nd\<lparr>panel_style := s3\<rparr>)))"

text \<open>
  For comparison, \<open>setPosition\<close> in the order ``first the default anchoring, then the
  tests on the bounding rectangle'': the rectangle is the one of the panel under the
  default style.
\<close>

definition setPosition_anchor_first ::
  "(nat \<Rightarrow> string) \<Rightarrow> window_dims \<Rightarrow> submenu_panel option \<Rightarrow> submenu_panel option" where
  "setPosition_anchor_first spacing win current =
     (case current of
        None \<Rightarrow> None
      | Some nd \<Rightarrow>
          (let s1 = \<lparr>style_top = negativePadding spacing, style_left = sidePadding spacing,
                     style_bottom = ''unset'', style_right = ''unset''\<rparr>;
               rect = getBoundingClientRect (nd\<lparr>panel_style := s1\<rparr>);
               s2 = (if rect_right rect > innerWidth win
                     then s1\<lparr>style_right := sidePadding spacing, style_left := ''unset''\<rparr>
                     else s1);
               s3 = (if rect_bottom rect > innerHeight win
                     then s2\<lparr>style_top := ''unset'', style_bottom := negativePadding spacing\<rparr>
                     else s2)
           in Some (nd\<lparr>panel_style := s3\<rparr>)))"

section \<open>Item: click and registration\<close>

text \<open>
  \<open>handlerParams\<close> of an item, with the \<open>event\<close> the handlers store in it before
  they call \<open>onClick\<close>.
\<close>

record ('p, 'd) ItemParams =
  ip_id :: "string option"
  ip_data :: "'d option"
  ip_triggerEvent :: "dom_event option"
  ip_props :: "'p option"
  ip_event :: "dom_event option"

text \<open>
  What one render of an \<open>Item\<close> works with. \<open>keyMatcher\<close> is \<open>None\<close> when the prop is
  not a function. The calls of \<open>onClick\<close> are logged in the environment below.
\<close>

record ('p, 'd) ItemProps =
  handlerParams :: "('p, 'd) ItemParams"
  disabled :: "('p, 'd) ItemParams BooleanPredicate"
  hidden :: "('p, 'd) ItemParams BooleanPredicate"
  closeOnClick :: bool
  keyMatcher :: "(dom_event \<Rightarrow> bool) option"





definition isHidden :: "('p, 'd) ItemProps \<Rightarrow> bool" where
  "isHidden item = getPredicateValue (hidden item) (handlerParams item)"





section \<open>A sample run\<close>

text \<open>
  A controller that records the calls it receives, one menu of 200 by 300 pixels in a
  window of 1000 by 800, and two worlds: the menu mounted, and the menu shown by a
  right click at (900, 100).
\<close>

definition recording_ops :: "string list nav_ops" where
  "recording_ops =
     \<lparr>tracker_clear = (\<lambda>c. c @ [''clear'']),
      controller_init = (\<lambda>c. c @ [''init'']),
      moveUp = (\<lambda>c. c @ [''moveUp'']),
      moveDown = (\<lambda>c. c @ [''moveDown'']),
      openSubmenu = (\<lambda>c. (False, c @ [''openSubmenu''])),
      closeSubmenu = (\<lambda>c. c @ [''closeSubmenu'']),
      matchKeys = (\<lambda>e c. (e, c @ [''matchKeys'']))\<rparr>"

definition sample_props :: MenuProps where
  "sample_props =
     \<lparr>menu_id = KStr ''menu'', disableBoundariesCheck = False, preventDefaultOnKeydown = True,
      onVisibilityChange = True, forwardedRef = False\<rparr>"

definition sample_node :: node where
  "sample_node = \<lparr>offsetWidth = 200, offsetHeight = 300\<rparr>"

definition sample_window :: window_dims where
  "sample_window = \<lparr>innerWidth = 1000, innerHeight = 800\<rparr>"

definition sample_event :: "string \<Rightarrow> dom_event" where
  "sample_event ty =
     \<lparr>ev_type = ty, clientX = JNum 900, clientY = JNum 100, changedTouches = None,
      button = JNum 0, ctrlKey = Some False, key = [], propagationStopped = False,
      defaultPrevented = False\<rparr>"

definition key_event :: "string \<Rightarrow> dom_event" where
  "key_event k =
     \<lparr>ev_type = ''keydown'', clientX = JUndefined, clientY = JUndefined, changedTouches = None,
      button = JUndefined, ctrlKey = Some False, key = k, propagationStopped = False,
      defaultPrevented = False\<rparr>"

definition sample_request :: "unit ShowContextMenuParams" where
  "sample_request =
     \<lparr>sp_event = sample_event ''contextmenu'', sp_props = None, sp_position = None\<rparr>"

definition mounted_world :: "(unit, string list) world" where
  "mounted_world =
     step recording_ops (Mount 0 sample_props sample_node []) (empty_world sample_window)"

definition visible_world :: "(unit, string list) world" where
  "visible_world =
     step recording_ops (Emit (KStr ''menu'') (ShowArg sample_request)) mounted_world"

definition hidden_inst :: "(unit, string list) menu_inst" where
  "hidden_inst =
     \<lparr>props = sample_props, state = initialState, nodeRef = None, menuNode = sample_node,
      nav = [''clear''], wasVisible = None, visibilityId = None\<rparr>"

definition shown_inst :: "(unit, string list) menu_inst" where
  "shown_inst =
     \<lparr>props = sample_props,
      state = \<lparr>state_x = 800, state_y = 100, visible = True,
               triggerEvent = Some (stopPropagation (sample_event ''contextmenu'')),
               propsFromTrigger = None, willLeave = False\<rparr>,
      nodeRef = Some sample_node, menuNode = sample_node,
      nav = [''clear'', ''init''], wasVisible = Some True, visibilityId = None\<rparr>"



text \<open>
  A menu whose id is the number \<open>0\<close>, alone and together with the sample menu, the
  latter shown; and a show request whose event has an empty \<open>changedTouches\<close>.
\<close>

definition zero_props :: MenuProps where
  "zero_props = sample_props\<lparr>menu_id := KNum 0\<rparr>"

definition zero_world :: "(unit, string list) world" where
  "zero_world =
     step recording_ops (Mount 0 zero_props sample_node []) (empty_world sample_window)"

definition two_world :: "(unit, string list) world" where
  "two_world = step recording_ops (Mount 1 sample_props sample_node []) zero_world"

definition two_visible :: "(unit, string list) world" where
  "two_visible =
     step recording_ops (Emit (KStr ''menu'') (ShowArg sample_request)) two_world"

definition touchless_request :: "unit ShowContextMenuParams" where
  "touchless_request =
     sample_request\<lparr>sp_event := (sample_event ''touchstart'')\<lparr>changedTouches := Some []\<rparr>\<rparr>"



text \<open>
  A submenu panel 200 wide next to a parent item that ends at 900: to the right of the
  parent it spans 900 to 1100, past the edge of the window; anchored to the left
  (\<open>left\<close> unset) it spans 500 to 700.
\<close>

definition sample_spacing :: "nat \<Rightarrow> string" where
  "sample_spacing n = ''8px''"

definition edge_layout :: "css_position \<Rightarrow> dom_rect" where
  "edge_layout s =
     (if style_left s = ''unset''
      then \<lparr>rect_left = 500, rect_top = 100, rect_right = 700, rect_bottom = 400\<rparr>
      else \<lparr>rect_left = 900, rect_top = 100, rect_right = 1100, rect_bottom = 400\<rparr>)"

definition right_of_parent :: css_position where
  "right_of_parent =
     \<lparr>style_top = ''calc(-1 * 8px)'', style_left = ''calc(100% + 8px)'',
      style_bottom = ''unset'', style_right = ''unset''\<rparr>"

definition left_of_parent :: css_position where
  "left_of_parent =
     \<lparr>style_top = ''calc(-1 * 8px)'', style_left = ''unset'',
      style_bottom = ''unset'', style_right = ''calc(100% + 8px)''\<rparr>"

definition edge_panel :: "css_position \<Rightarrow> submenu_panel" where
  "edge_panel s = \<lparr>panel_style = s, panel_layout = edge_layout\<rparr>"

section \<open>Auxiliary lemmas\<close>

lemma pow2_powr: "pow2 k = 2 powr (of_int k)"
proof (cases "0 \<le> k")
  case True
  then have "2 powr (of_int k) = (2::real) powr (real (nat k))" by simp
  also have "\<dots> = 2 ^ nat k" by (simp add: powr_realpow)
  finally show ?thesis using True by (simp add: pow2_def)
next
  case False
  then have "(2::real) powr (of_int k) = 2 powr (- real (nat (- k)))" by simp
  also have "\<dots> = 1 / 2 powr (real (nat (- k)))" by (simp add: powr_minus_divide)
  also have "\<dots> = 1 / 2 ^ nat (- k)" by (simp add: powr_realpow)
  finally show ?thesis using False by (simp add: pow2_def)
qed

lemma expo_iff:
  assumes "x \<noteq> 0"
  shows "expo x = k \<longleftrightarrow> pow2 k \<le> \<bar>x\<bar> \<and> \<bar>x\<bar> < pow2 (k + 1)"
  using assms floor_log_eq_powr_iff[of "\<bar>x\<bar>" 2 k]
  by (simp add: expo_def pow2_powr)


lemma roundHalfEven_of_int [simp]: "roundHalfEven (of_int m) = m"
  by (simp add: roundHalfEven_def)

lemma pow2_mono: "j \<le> k \<Longrightarrow> pow2 j \<le> pow2 k"
  by (simp add: pow2_powr)

lemma fl_of_int:
  assumes "\<bar>n\<bar> \<le> 2 ^ 53"
  shows "fl (of_int n) = of_int n"
proof (cases "n = 0")
  case True
  then show ?thesis by (simp add: fl_def)
next
  case False
  let ?x = "of_int n :: real"
  let ?e = "expo ?x"
  have x0: "?x \<noteq> 0" using False by simp
  have b: "pow2 ?e \<le> \<bar>?x\<bar>" "\<bar>?x\<bar> < pow2 (?e + 1)"
    using expo_iff[OF x0, of ?e] by simp_all
  have "1 \<le> \<bar>n\<bar>" using False by simp
  then have x1: "1 \<le> \<bar>?x\<bar>" by (metis of_int_abs of_int_1_le_iff)
  have e0: "0 \<le> ?e"
  proof (rule ccontr)
    assume "\<not> 0 \<le> ?e"
    then have "pow2 (?e + 1) \<le> pow2 0" by (intro pow2_mono) simp
    then show False using b(2) x1 by (simp add: pow2_def)
  qed
  have xle: "\<bar>?x\<bar> \<le> 2 ^ 53"
    using assms by (metis of_int_abs of_int_le_iff of_int_numeral of_int_power)
  have e53: "?e \<le> 53"
  proof (rule ccontr)
    assume "\<not> ?e \<le> 53"
    then have "pow2 54 \<le> pow2 ?e" by (intro pow2_mono) simp
    then show False using b(1) xle by (simp add: pow2_def)
  qed
  have m: "max ?e (- 1022) = ?e" using e0 by simp
  show ?thesis
  proof (cases "?e \<le> 52")
    case True
    let ?d = "nat (52 - ?e)"
    have u: "pow2 (?e - 52) = 1 / 2 ^ ?d"
    proof (cases "?e = 52")
      case True
      then show ?thesis by (simp add: pow2_def)
    next
      case False
      then have "?e - 52 < 0" using \<open>?e \<le> 52\<close> by simp
      then show ?thesis by (simp add: pow2_def)
    qed
    have "?x / pow2 (?e - 52) = of_int (n * 2 ^ ?d)" by (simp add: u)
    then have "roundHalfEven (?x / pow2 (?e - 52)) = n * 2 ^ ?d"
      by (metis roundHalfEven_of_int)
    then show ?thesis using x0 m by (simp add: fl_def Let_def u)
  next
    case False
    then have e: "?e = 53" using e53 by simp
    then have "2 ^ 53 \<le> \<bar>?x\<bar>" using b(1) by (simp add: pow2_def)
    then have ax: "\<bar>?x\<bar> = 2 ^ 53" using xle by simp
    have u: "pow2 (?e - 52) = 2" using e by (simp add: pow2_def)
    have "?x = 2 ^ 53 \<or> ?x = - (2 ^ 53)" using ax by (auto simp: abs_if split: if_splits)
    then have "?x / 2 = of_int (2 ^ 52) \<or> ?x / 2 = of_int (- (2 ^ 52))" by auto
    then have "of_int (roundHalfEven (?x / 2)) = ?x / 2"
      by (metis roundHalfEven_of_int)
    then show ?thesis using x0 m by (simp add: fl_def Let_def u)
  qed
qed


lemma fl_numeral:
  "(numeral k :: int) \<le> 2 ^ 53 \<Longrightarrow> fl (numeral k) = numeral k"
  using fl_of_int[of "numeral k"] by simp







text \<open>The sample menu at (900, 100): every intermediate result is a small whole number.\<close>

lemma checkBoundaries_sample:
  "checkBoundaries (Some \<lparr>offsetWidth = 200, offsetHeight = 300\<rparr>) False
     \<lparr>innerWidth = 1000, innerHeight = 800\<rparr> 900 100 = \<lparr>pos_x = 800, pos_y = 100\<rparr>"
  by (simp add: checkBoundaries_def js_add_def js_sub_def fl_numeral)

lemma upd_inst_simps [simp]:
  "eventList (upd_inst i f w) = eventList w"
  "windowListeners (upd_inst i f w) = windowListeners w"
  "window (upd_inst i f w) = window w"
  "timers (upd_inst i f w) = timers w"
  "nextTimerId (upd_inst i f w) = nextTimerId w"
  "visibilityLog (upd_inst i f w) = visibilityLog w"
  "menus (upd_inst i f w) j = (if j = i then map_option f (menus w i) else menus w j)"
  by (auto simp: upd_inst_def split: option.splits)

lemma addEventListener_simps [simp]:
  "eventList (addEventListener ty l w) = eventList w"
  "menus (addEventListener ty l w) = menus w"
  "window (addEventListener ty l w) = window w"
  "timers (addEventListener ty l w) = timers w"
  "nextTimerId (addEventListener ty l w) = nextTimerId w"
  "visibilityLog (addEventListener ty l w) = visibilityLog w"
  "set (windowListeners (addEventListener ty l w)) = insert (ty, l) (set (windowListeners w))"
  by (auto simp: addEventListener_def)

lemma removeEventListener_simps [simp]:
  "eventList (removeEventListener ty l w) = eventList w"
  "menus (removeEventListener ty l w) = menus w"
  "window (removeEventListener ty l w) = window w"
  "timers (removeEventListener ty l w) = timers w"
  "nextTimerId (removeEventListener ty l w) = nextTimerId w"
  "visibilityLog (removeEventListener ty l w) = visibilityLog w"
  "set (windowListeners (removeEventListener ty l w)) = set (windowListeners w) - {(ty, l)}"
  by (auto simp: removeEventListener_def)

lemma effect_domEvents_simps [simp]:
  "eventList (effect_domEvents i vis w) = eventList w"
  "menus (effect_domEvents i vis w) = menus w"
  "window (effect_domEvents i vis w) = window w"
  "timers (effect_domEvents i vis w) = timers w"
  "nextTimerId (effect_domEvents i vis w) = nextTimerId w"
  "visibilityLog (effect_domEvents i vis w) = visibilityLog w"
  "set (windowListeners (effect_domEvents i vis w)) =
     set (windowListeners w) \<union> (if vis then set (menu_listeners i) else {})"
  by (auto simp: effect_domEvents_def hideOnEvents_def menu_listeners_def)

lemma cleanup_domEvents_simps [simp]:
  "eventList (cleanup_domEvents i w) = eventList w"
  "menus (cleanup_domEvents i w) = menus w"
  "window (cleanup_domEvents i w) = window w"
  "timers (cleanup_domEvents i w) = timers w"
  "nextTimerId (cleanup_domEvents i w) = nextTimerId w"
  "visibilityLog (cleanup_domEvents i w) = visibilityLog w"
  "set (windowListeners (cleanup_domEvents i w)) = set (windowListeners w) - set (menu_listeners i)"
  by (auto simp: cleanup_domEvents_def hideOnEvents_def menu_listeners_def)

lemma reducer_simps:
  "visible (reducer s hide_update) = False"
  "visible (reducer s (show_update q ev pr)) = True"
  "visible (reducer s (position_update q)) = visible s"
  by (auto simp: reducer_def spread_def hide_update_def show_update_def position_update_def no_fields_def)

lemma run_effects_simps:
  "eventList (run_effects ops i w) = eventList w"
  "window (run_effects ops i w) = window w"
  "timers (run_effects ops i w) = timers w"
  "nextTimerId (run_effects ops i w) = nextTimerId w"
  "visibilityLog (run_effects ops i w) = visibilityLog w"
  by (auto simp: run_effects_def split: option.splits)

lemma run_effects_menus:
  "menus (run_effects ops i w) j =
     (if j = i then map_option (\<lambda>m. effect_checkBoundaries (window w) (effect_collectItems ops (render_panel m))) (menus w i)
      else menus w j)"
  by (auto simp: run_effects_def split: option.splits)

lemma run_effects_listeners:
  "menus w i = Some m \<Longrightarrow>
   set (windowListeners (run_effects ops i w)) =
     (set (windowListeners w) - set (menu_listeners i)) \<union>
       (if visible (state m) then set (menu_listeners i) else {})"
  by (auto simp: run_effects_def split: option.splits)

lemma same_frame_refl [simp]: "same_frame w w"
  by (auto simp: same_frame_def split: option.splits)

lemma same_frame_trans: "same_frame w w1 \<Longrightarrow> same_frame w1 w2 \<Longrightarrow> same_frame w w2"
  unfolding same_frame_def
  by (auto split: option.splits) (metis option.inject option.distinct(1))+

lemma listeners_inv_cong:
  "visible_in w' = visible_in w \<Longrightarrow> set (windowListeners w') = set (windowListeners w)
   \<Longrightarrow> listeners_inv w' = listeners_inv w"
  by (simp add: listeners_inv_def)

lemma owner_menu_listeners: "(ty, l) \<in> set (menu_listeners i) \<Longrightarrow> owner l = i"
  by (auto simp: menu_listeners_def)

lemma props_effects [simp]:
  "props (render_panel m) = props m"
  "props (effect_collectItems ops m) = props m"
  "props (effect_checkBoundaries win m) = props m"
  "visible (state (render_panel m)) = visible (state m)"
  "visible (state (effect_collectItems ops m)) = visible (state m)"
  "visible (state (effect_checkBoundaries win m)) = visible (state m)"
  by (auto simp: render_panel_def effect_collectItems_def effect_checkBoundaries_def reducer_simps)

lemma setState_simps:
  "eventList (setState ops i pl w) = eventList w"
  "window (setState ops i pl w) = window w"
  "timers (setState ops i pl w) = timers w"
  "nextTimerId (setState ops i pl w) = nextTimerId w"
  "visibilityLog (setState ops i pl w) = visibilityLog w"
  by (auto simp: setState_def Let_def run_effects_simps split: option.splits)

lemma setState_others: "j \<noteq> i \<Longrightarrow> menus (setState ops i pl w) j = menus w j"
  by (auto simp: setState_def Let_def run_effects_menus split: option.splits)

lemma setState_unmounted: "menus w i = None \<Longrightarrow> setState ops i pl w = w"
  by (simp add: setState_def)

lemma setState_same:
  assumes "menus w i = Some m"
  shows "\<exists>m'. menus (setState ops i pl w) i = Some m' \<and> props m' = props m
           \<and> visible (state m') = visible (reducer (state m) pl)
           \<and> menuNode m' = menuNode m \<and> wasVisible m' = wasVisible m
           \<and> visibilityId m' = visibilityId m"
  using assms
  by (auto simp: setState_def Let_def run_effects_menus render_panel_def
      effect_collectItems_def effect_checkBoundaries_def reducer_simps split: option.splits)

lemma setState_frame: "same_frame w (setState ops i pl w)"
  unfolding same_frame_def
proof (intro conjI allI)
  show "eventList (setState ops i pl w) = eventList w" by (simp add: setState_simps)
next
  fix j
  show "case menus w j of None \<Rightarrow> menus (setState ops i pl w) j = None
        | Some m \<Rightarrow> \<exists>m'. menus (setState ops i pl w) j = Some m' \<and> props m' = props m"
  proof (cases "j = i")
    case True
    then show ?thesis
      using setState_same[of w i _ ops pl] setState_unmounted[of w i ops pl]
      by (auto split: option.splits)
  next
    case False
    then show ?thesis by (auto simp: setState_others split: option.splits)
  qed
qed

lemma setState_visible_in:
  "visible_in (setState ops i pl w) j =
     (if j = i then (case menus w i of None \<Rightarrow> False | Some m \<Rightarrow> visible (reducer (state m) pl))
      else visible_in w j)"
  using setState_same[of w i _ ops pl] setState_unmounted[of w i ops pl]
  by (auto simp: visible_in_def setState_others split: option.splits)

lemma setState_listeners:
  "set (windowListeners (setState ops i pl w)) =
     (case menus w i of
        None \<Rightarrow> set (windowListeners w)
      | Some m \<Rightarrow>
          if visible (reducer (state m) pl) \<noteq> visible (state m)
          then (set (windowListeners w) - set (menu_listeners i)) \<union>
               (if visible (reducer (state m) pl) then set (menu_listeners i) else {})
          else set (windowListeners w))"
  by (auto simp: setState_def Let_def run_effects_listeners split: option.splits)

lemma setState_inv:
  assumes "listeners_inv w"
  shows "listeners_inv (setState ops i pl w)"
proof (cases "menus w i")
  case None
  then show ?thesis using assms by (simp add: setState_unmounted)
next
  case (Some m)
  show ?thesis
    unfolding listeners_inv_def
  proof (intro allI)
    fix ty l
    show "((ty, l) \<in> set (windowListeners (setState ops i pl w))) =
          (visible_in (setState ops i pl w) (owner l) \<and> (ty, l) \<in> set (menu_listeners (owner l)))"
    proof (cases "owner l = i")
      case True
      have vi: "visible_in w i = visible (state m)" using Some by (simp add: visible_in_def)
      show ?thesis
        using assms[unfolded listeners_inv_def, rule_format, of ty l] Some True vi
        by (auto simp: setState_listeners setState_visible_in)
    next
      case False
      then have "(ty, l) \<notin> set (menu_listeners i)" using owner_menu_listeners by blast
      then show ?thesis
        using assms[unfolded listeners_inv_def, rule_format, of ty l] Some False
        by (auto simp: setState_listeners setState_visible_in)
    qed
  qed
qed

lemma moved_refl [simp]: "moved S w w"
  by (simp add: moved_def)

lemma moved_trans: "moved S w w1 \<Longrightarrow> moved T w1 w2 \<Longrightarrow> moved (S \<union> T) w w2"
  unfolding moved_def using same_frame_trans by blast

lemma moved_mono: "moved S w w' \<Longrightarrow> S \<subseteq> T \<Longrightarrow> moved T w w'"
  unfolding moved_def by blast

lemma moved_upd_inst:
  assumes "\<And>m. props (f m) = props m" and "\<And>m. visible (state (f m)) = visible (state m)"
    and "\<And>m. node_attached m \<Longrightarrow> node_attached (f m)"
  shows "moved {} w (upd_inst i f w)"
proof -
  have n: "nodes_inv w \<Longrightarrow> nodes_inv (upd_inst i f w)"
    unfolding nodes_inv_def using assms(3) by (auto split: if_splits)
  have v: "visible_in (upd_inst i f w) = visible_in w"
    by (auto simp: visible_in_def fun_eq_iff assms split: option.splits)
  have "same_frame w (upd_inst i f w)"
    by (auto simp: same_frame_def assms split: option.splits)
  then show ?thesis
    using v n listeners_inv_cong[of "upd_inst i f w" w] by (simp add: moved_def)
qed

lemma moved_fields:
  assumes "menus w' = menus w" and "eventList w' = eventList w"
    and "windowListeners w' = windowListeners w"
  shows "moved {} w w'"
proof -
  have v: "visible_in w' = visible_in w" using assms by (simp add: visible_in_def fun_eq_iff)
  have "same_frame w w'" using assms by (auto simp: same_frame_def split: option.splits)
  then show ?thesis
    using v listeners_inv_cong[of w' w] assms by (simp add: moved_def nodes_inv_def)
qed

lemma setState_node_attached:
  assumes "menus w i = Some m" and "node_attached m"
  shows "\<exists>m'. menus (setState ops i pl w) i = Some m' \<and> node_attached m'"
  using assms
  by (auto simp: setState_def Let_def run_effects_menus render_panel_def node_attached_def
      effect_collectItems_def effect_checkBoundaries_def reducer_simps split: option.splits)

lemma setState_nodes_inv:
  assumes "nodes_inv w"
  shows "nodes_inv (setState ops i pl w)"
  unfolding nodes_inv_def
proof (intro allI impI)
  fix j m'
  assume m': "menus (setState ops i pl w) j = Some m'"
  show "node_attached m'"
  proof (cases "j = i")
    case False
    then show ?thesis using m' assms by (simp add: setState_others nodes_inv_def)
  next
    case True
    show ?thesis
    proof (cases "menus w i")
      case None
      then show ?thesis using m' True by (simp add: setState_unmounted)
    next
      case (Some m)
      then have "node_attached m" using assms by (simp add: nodes_inv_def)
      from setState_node_attached[OF Some this, of ops pl] show ?thesis using m' True by auto
    qed
  qed
qed

lemma moved_setState:
  "moved (if (\<exists>m. menus w i = Some m \<and> visible (reducer (state m) pl)) then {i} else {}) w
     (setState ops i pl w)"
  unfolding moved_def
  by (auto simp: setState_frame setState_inv setState_nodes_inv setState_visible_in
      split: option.splits)

lemma moved_hide: "moved {} w (hide ops i e w)"
proof (cases "hide_ignores e \<or> menus w i = None")
  case True
  then show ?thesis by (auto simp: hide_def)
next
  case False
  then obtain m where m: "menus w i = Some m" by auto
  let ?w1 = "setState ops i hide_update w"
  let ?w2 = "snd (setTimeout i (onVisibilityChange (props m)) ?w1)"
  have 1: "moved {} w ?w1"
    using moved_setState[of w i hide_update ops] by (simp add: reducer_simps)
  have 2: "moved {} ?w1 ?w2"
    by (rule moved_fields) (simp_all add: setTimeout_def)
  have 3: "moved {} ?w2 (upd_inst i (\<lambda>m. m\<lparr>visibilityId := Some (nextTimerId ?w1)\<rparr>) ?w2)"
    by (rule moved_upd_inst) (simp_all add: node_attached_def)
  have "hide ops i e w = upd_inst i (\<lambda>m. m\<lparr>visibilityId := Some (nextTimerId ?w1)\<rparr>) ?w2"
    using False m by (simp add: hide_def setTimeout_def)
  then show ?thesis using moved_trans[OF moved_trans[OF 1 2] 3] by simp
qed

lemma hide_not_visible:
  "\<not> hide_ignores e \<Longrightarrow> \<not> visible_in (hide ops i e w) i"
  by (auto simp: hide_def visible_in_def setTimeout_def setState_simps reducer_simps
      dest: setState_same[where ops = ops and pl = hide_update] split: option.splits)

lemma moved_clearTimeout: "moved {} w (clearTimeout t w)"
  by (rule moved_fields) (simp_all add: clearTimeout_def split: option.splits)

lemma moved_notify_shown: "moved {} w (notify_shown i w)"
proof -
  have "moved {} w (w\<lparr>visibilityLog := visibilityLog w @ [(i, True)]\<rparr>)"
    by (rule moved_fields) simp_all
  moreover have "moved {} (w\<lparr>visibilityLog := visibilityLog w @ [(i, True)]\<rparr>)
     (upd_inst i (\<lambda>m. m\<lparr>wasVisible := Some True\<rparr>) (w\<lparr>visibilityLog := visibilityLog w @ [(i, True)]\<rparr>))"
    by (rule moved_upd_inst) (simp_all add: node_attached_def)
  ultimately show ?thesis
    using moved_trans[of "{}" w _ "{}"] by (auto simp: notify_shown_def split: option.splits)
qed

lemma show_Inr:
  assumes "show ops i params w = Inr w'" and "menus w i = Some m"
  shows "\<exists>p. show_position params = Inr p \<and>
     w' = notify_shown i (clearTimeout (visibilityId m)
            (setState ops i
               (show_update
                  (checkBoundaries (nodeRef m) (disableBoundariesCheck (props m)) (window w)
                     (pos_x p) (pos_y p))
                  (stopPropagation (sp_event params)) (sp_props params)) w))"
  using assms by (cases "show_position params") (simp_all add: show_def)

lemma moved_show:
  assumes "show ops i params w = Inr w'"
  shows "moved {i} w w'"
proof (cases "menus w i")
  case None
  then show ?thesis using assms by (simp add: show_def)
next
  case (Some m)
  from show_Inr[OF assms Some] obtain pl where
    w': "w' = notify_shown i (clearTimeout (visibilityId m) (setState ops i pl w))"
    by blast
  have "moved {i} w (setState ops i pl w)"
    by (rule moved_mono[OF moved_setState]) simp
  from moved_trans[OF moved_trans[OF this moved_clearTimeout] moved_notify_shown]
  show ?thesis by (simp add: w')
qed

lemma notify_shown_others: "j \<noteq> i \<Longrightarrow> menus (notify_shown i w) j = menus w j"
  by (auto simp: notify_shown_def split: option.splits)

lemma notify_shown_visible_in: "visible_in (notify_shown i w) = visible_in w"
  by (auto simp: notify_shown_def visible_in_def fun_eq_iff split: option.splits)

lemma clearTimeout_menus: "menus (clearTimeout t w) = menus w"
  by (auto simp: clearTimeout_def split: option.splits)

lemma show_visible:
  assumes "show ops i params w = Inr w'" and "menus w i = Some m"
  shows "visible_in w' i"
proof -
  from show_Inr[OF assms] obtain q where
    w': "w' = notify_shown i (clearTimeout (visibilityId m)
                (setState ops i (show_update q (stopPropagation (sp_event params)) (sp_props params)) w))"
    by blast
  show ?thesis
    unfolding w' using assms(2)
    by (simp add: notify_shown_visible_in visible_in_def[of "clearTimeout _ _"] clearTimeout_menus
        setState_visible_in[unfolded visible_in_def] reducer_simps)
qed

lemma show_others:
  assumes "show ops i params w = Inr w'" and "j \<noteq> i"
  shows "menus w' j = menus w j"
proof (cases "menus w i")
  case None
  then show ?thesis using assms by (simp add: show_def)
next
  case (Some m)
  from show_Inr[OF assms(1) Some] obtain pl where
    w': "w' = notify_shown i (clearTimeout (visibilityId m) (setState ops i pl w))"
    by blast
  show ?thesis
    unfolding w' using assms(2) by (simp add: notify_shown_others clearTimeout_menus setState_others)
qed

lemma moved_handleKeyboard: "moved {} w (snd (handleKeyboard ops i e w))"
proof (cases "menus w i")
  case None
  then show ?thesis by (simp add: handleKeyboard_def)
next
  case (Some m)
  have nav: "\<And>c. moved {} w (upd_inst i (\<lambda>m. m\<lparr>nav := c m\<rparr>) w)"
    by (rule moved_upd_inst) (simp_all add: node_attached_def)
  have navh: "\<And>c e'. moved {} w (hide ops i e' (upd_inst i (\<lambda>m. m\<lparr>nav := c m\<rparr>) w))"
    using moved_trans[OF nav moved_hide] by simp
  show ?thesis
    using Some by (simp add: handleKeyboard_def Let_def split_def nav navh moved_hide)
qed

lemma moved_fire_timer: "moved {} w (fire_timer t w)"
proof (cases "map_of (timers w) t")
  case None
  then show ?thesis by (simp add: fire_timer_def)
next
  case (Some a)
  obtain i cb where a: "a = (i, cb)" by (cases a)
  let ?w1 = "w\<lparr>timers := filter (\<lambda>e. fst e \<noteq> t) (timers w),
               visibilityLog := (if cb then visibilityLog w @ [(i, False)] else visibilityLog w)\<rparr>"
  have 1: "moved {} w ?w1" by (rule moved_fields) simp_all
  have 2: "moved {} ?w1 (upd_inst i (\<lambda>m. m\<lparr>wasVisible := Some False\<rparr>) ?w1)"
    by (rule moved_upd_inst) (simp_all add: node_attached_def)
  show ?thesis using moved_trans[OF 1 2] Some a by (simp add: fire_timer_def)
qed

lemma moved_call_listeners: "moved {} w (snd (call_listeners ops ls e w))"
proof (induction ls arbitrary: e w)
  case Nil
  then show ?case by simp
next
  case (Cons l ls)
  have 1: "moved {} w (snd (call_listener ops l e w))"
    by (cases l) (simp_all add: call_listener_def moved_handleKeyboard moved_hide)
  show ?case
    using moved_trans[OF 1 Cons.IH[of "snd (call_listener ops l e w)" "fst (call_listener ops l e w)"]]
    by (simp add: split_def)
qed

lemma moved_call_subscriber:
  assumes "call_subscriber ops h a w = Inr w'"
  shows "moved (shown_by h) w w'"
proof (cases h)
  case (ShowOf i)
  then obtain params where "show ops i params w = Inr w'"
    using assms by (cases a) (simp_all add: call_subscriber_def)
  then show ?thesis using ShowOf moved_show by fastforce
next
  case (HideOf i)
  then have "w' = hide ops i None w" using assms by (simp add: call_subscriber_def)
  then show ?thesis using HideOf moved_hide by simp
qed

lemma moved_call_subscribers:
  "moved (\<Union>(shown_by ` set hs)) w (snd (call_subscribers ops hs a w))"
proof (induction hs arbitrary: w)
  case Nil
  then show ?case by simp
next
  case (Cons h hs)
  show ?case
  proof (cases "call_subscriber ops h a w")
    case (Inl err)
    then show ?thesis by simp
  next
    case (Inr w1)
    from moved_trans[OF moved_call_subscriber[OF Inr] Cons.IH[of w1]]
    show ?thesis using Inr by simp
  qed
qed

lemma same_frame_fwd:
  assumes "same_frame w w'" and "menus w i = Some m"
  shows "\<exists>m'. menus w' i = Some m' \<and> props m' = props m"
proof -
  from assms(1) have "case menus w i of None \<Rightarrow> menus w' i = None
     | Some m \<Rightarrow> (\<exists>m'. menus w' i = Some m' \<and> props m' = props m)"
    by (simp add: same_frame_def)
  then show ?thesis using assms(2) by simp
qed

lemma same_frame_bwd:
  assumes "same_frame w w'" and "menus w' i = Some m'"
  shows "\<exists>m. menus w i = Some m \<and> props m' = props m"
proof -
  from assms(1) have "case menus w i of None \<Rightarrow> menus w' i = None
     | Some m \<Rightarrow> (\<exists>m'. menus w' i = Some m' \<and> props m' = props m)"
    by (simp add: same_frame_def)
  then show ?thesis using assms(2) by (cases "menus w i") auto
qed

lemma same_frame_subscriptions:
  assumes "same_frame w w'" and "subscriptions_inv w"
  shows "subscriptions_inv w'"
  unfolding subscriptions_inv_def
proof (intro allI iffI)
  fix k h
  assume "(k, h) \<in> set (eventList w')"
  then have "(k, h) \<in> set (eventList w)" using assms(1) by (simp add: same_frame_def)
  then obtain i m where "menus w i = Some m"
    "(k = menu_id (props m) \<and> h = ShowOf i) \<or> (k = EVENT_HIDE_ALL \<and> h = HideOf i)"
    using assms(2) unfolding subscriptions_inv_def by blast
  then show "\<exists>i m. menus w' i = Some m \<and>
           ((k = menu_id (props m) \<and> h = ShowOf i) \<or> (k = EVENT_HIDE_ALL \<and> h = HideOf i))"
    using same_frame_fwd[OF assms(1)] by metis
next
  fix k h
  assume "\<exists>i m. menus w' i = Some m \<and>
           ((k = menu_id (props m) \<and> h = ShowOf i) \<or> (k = EVENT_HIDE_ALL \<and> h = HideOf i))"
  then obtain i m' where "menus w' i = Some m'"
    "(k = menu_id (props m') \<and> h = ShowOf i) \<or> (k = EVENT_HIDE_ALL \<and> h = HideOf i)"
    by blast
  then have "\<exists>i m. menus w i = Some m \<and>
           ((k = menu_id (props m) \<and> h = ShowOf i) \<or> (k = EVENT_HIDE_ALL \<and> h = HideOf i))"
    using same_frame_bwd[OF assms(1)] by metis
  then have "(k, h) \<in> set (eventList w)"
    using assms(2) unfolding subscriptions_inv_def by blast
  then show "(k, h) \<in> set (eventList w')" using assms(1) by (simp add: same_frame_def)
qed

lemma mount_eventList:
  "menus w i = None \<Longrightarrow>
   eventList (mount ops i p n c w) = eventList w @ [(menu_id p, ShowOf i), (EVENT_HIDE_ALL, HideOf i)]"
  by (simp add: mount_def effect_eventManager_def on_def)

lemma mount_windowListeners:
  "windowListeners (mount ops i p n c w) = windowListeners w"
  by (simp add: mount_def effect_domEvents_def initialState_def effect_eventManager_def on_def
      split: option.splits)

lemma mount_menus_other: "j \<noteq> i \<Longrightarrow> menus (mount ops i p n c w) j = menus w j"
  by (simp add: mount_def effect_eventManager_def on_def split: option.splits)

lemma mount_menus_new:
  "menus w i = None \<Longrightarrow>
   \<exists>m. menus (mount ops i p n c w) i = Some m \<and> props m = p \<and> \<not> visible (state m)"
  by (simp add: mount_def effect_eventManager_def on_def new_inst_def initialState_def)

lemma mount_mounted: "menus w i = Some m \<Longrightarrow> mount ops i p n c w = w"
  by (simp add: mount_def)

lemma unmount_eventList:
  "menus w i = Some m \<Longrightarrow>
   eventList (unmount i w) =
     removeAll (EVENT_HIDE_ALL, HideOf i) (removeAll (menu_id (props m), ShowOf i) (eventList w))"
  by (simp add: unmount_def cleanup_eventManager_def off_def)

lemma unmount_listeners:
  "menus w i = Some m \<Longrightarrow>
   set (windowListeners (unmount i w)) = set (windowListeners w) - set (menu_listeners i)"
  by (simp add: unmount_def cleanup_eventManager_def off_def)

lemma unmount_menus:
  "menus (unmount i w) = (menus w)(i := None)"
  by (auto simp: unmount_def split: option.splits)

lemma unmount_unmounted: "menus w i = None \<Longrightarrow> unmount i w = w"
  by (simp add: unmount_def)

lemma mount_listeners_inv:
  assumes "listeners_inv w"
  shows "listeners_inv (mount ops i p n c w)"
proof (cases "menus w i")
  case (Some m)
  then show ?thesis using assms by (simp add: mount_mounted)
next
  case None
  have "visible_in (mount ops i p n c w) j = visible_in w j" for j
  proof (cases "j = i")
    case True
    then show ?thesis
      using mount_menus_new[OF None, of ops p n c] None by (auto simp: visible_in_def)
  next
    case False
    then show ?thesis by (simp add: visible_in_def mount_menus_other)
  qed
  then have "visible_in (mount ops i p n c w) = visible_in w" by (simp add: fun_eq_iff)
  then show ?thesis
    using assms listeners_inv_cong[of "mount ops i p n c w" w] by (simp add: mount_windowListeners)
qed

lemma mount_subscriptions_inv:
  assumes "subscriptions_inv w"
  shows "subscriptions_inv (mount ops i p n c w)"
proof (cases "menus w i")
  case (Some m)
  then show ?thesis using assms by (simp add: mount_mounted)
next
  case None
  from mount_menus_new[OF None, of ops p n c] obtain m where
    m: "menus (mount ops i p n c w) i = Some m" "props m = p" by blast
  have others: "\<And>j. j \<noteq> i \<Longrightarrow> menus (mount ops i p n c w) j = menus w j"
    by (simp add: mount_menus_other)
  show ?thesis
    unfolding subscriptions_inv_def
  proof (intro allI iffI)
    fix k h
    assume "(k, h) \<in> set (eventList (mount ops i p n c w))"
    then consider "(k, h) \<in> set (eventList w)" | "k = menu_id p \<and> h = ShowOf i"
      | "k = EVENT_HIDE_ALL \<and> h = HideOf i"
      by (auto simp: mount_eventList[OF None])
    then show "\<exists>j mj. menus (mount ops i p n c w) j = Some mj \<and>
           ((k = menu_id (props mj) \<and> h = ShowOf j) \<or> (k = EVENT_HIDE_ALL \<and> h = HideOf j))"
    proof cases
      case 1
      then obtain j mj where j: "menus w j = Some mj"
        "(k = menu_id (props mj) \<and> h = ShowOf j) \<or> (k = EVENT_HIDE_ALL \<and> h = HideOf j)"
        using assms by (auto simp: subscriptions_inv_def)
      then have "j \<noteq> i" using None by auto
      then show ?thesis using j others by auto
    next
      case 2
      then show ?thesis using m by auto
    next
      case 3
      then show ?thesis using m by auto
    qed
  next
    fix k h
    assume "\<exists>j mj. menus (mount ops i p n c w) j = Some mj \<and>
           ((k = menu_id (props mj) \<and> h = ShowOf j) \<or> (k = EVENT_HIDE_ALL \<and> h = HideOf j))"
    then obtain j mj where j: "menus (mount ops i p n c w) j = Some mj"
        "(k = menu_id (props mj) \<and> h = ShowOf j) \<or> (k = EVENT_HIDE_ALL \<and> h = HideOf j)"
      by blast
    show "(k, h) \<in> set (eventList (mount ops i p n c w))"
    proof (cases "j = i")
      case True
      then show ?thesis using j m by (auto simp: mount_eventList[OF None])
    next
      case False
      then have "menus w j = Some mj" using j others by simp
      then have "(k, h) \<in> set (eventList w)"
        using assms j(2) by (auto simp: subscriptions_inv_def)
      then show ?thesis by (simp add: mount_eventList[OF None])
    qed
  qed
qed

lemma unmount_listeners_inv:
  assumes "listeners_inv w"
  shows "listeners_inv (unmount i w)"
proof (cases "menus w i")
  case None
  then show ?thesis using assms by (simp add: unmount_unmounted)
next
  case (Some m)
  have v: "\<And>j. visible_in (unmount i w) j = (j \<noteq> i \<and> visible_in w j)"
    by (simp add: visible_in_def unmount_menus)
  show ?thesis
    unfolding listeners_inv_def
  proof (intro allI)
    fix ty l
    show "((ty, l) \<in> set (windowListeners (unmount i w))) =
          (visible_in (unmount i w) (owner l) \<and> (ty, l) \<in> set (menu_listeners (owner l)))"
      using assms[unfolded listeners_inv_def, rule_format, of ty l]
        owner_menu_listeners[of ty l i]
      by (auto simp: unmount_listeners[OF Some] v)
  qed
qed

lemma unmount_subscriptions_inv:
  assumes "subscriptions_inv w"
  shows "subscriptions_inv (unmount i w)"
proof (cases "menus w i")
  case None
  then show ?thesis using assms by (simp add: unmount_unmounted)
next
  case (Some m)
  have mem: "(k, h) \<in> set (eventList (unmount i w)) \<longleftrightarrow>
          (k, h) \<in> set (eventList w) \<and> (k, h) \<noteq> (menu_id (props m), ShowOf i)
            \<and> (k, h) \<noteq> (EVENT_HIDE_ALL, HideOf i)" for k h
    by (auto simp: unmount_eventList[OF Some])
  show ?thesis
    unfolding subscriptions_inv_def
  proof (intro allI iffI)
    fix k h
    assume "(k, h) \<in> set (eventList (unmount i w))"
    then have in_w: "(k, h) \<in> set (eventList w)"
      and ne: "(k, h) \<noteq> (menu_id (props m), ShowOf i)" "(k, h) \<noteq> (EVENT_HIDE_ALL, HideOf i)"
      using mem by blast+
    from in_w obtain j mj where j: "menus w j = Some mj"
      "(k = menu_id (props mj) \<and> h = ShowOf j) \<or> (k = EVENT_HIDE_ALL \<and> h = HideOf j)"
      using assms unfolding subscriptions_inv_def by blast
    have "j \<noteq> i"
    proof
      assume "j = i"
      then have "mj = m" using j(1) Some by simp
      then show False using j(2) ne \<open>j = i\<close> by auto
    qed
    then have "menus (unmount i w) j = Some mj" using j(1) by (simp add: unmount_menus)
    then show "\<exists>j mj. menus (unmount i w) j = Some mj \<and>
           ((k = menu_id (props mj) \<and> h = ShowOf j) \<or> (k = EVENT_HIDE_ALL \<and> h = HideOf j))"
      using j(2) by blast
  next
    fix k h
    assume "\<exists>j mj. menus (unmount i w) j = Some mj \<and>
           ((k = menu_id (props mj) \<and> h = ShowOf j) \<or> (k = EVENT_HIDE_ALL \<and> h = HideOf j))"
    then obtain j mj where j: "menus (unmount i w) j = Some mj"
      "(k = menu_id (props mj) \<and> h = ShowOf j) \<or> (k = EVENT_HIDE_ALL \<and> h = HideOf j)"
      by blast
    from j(1) have ji: "j \<noteq> i" and mw: "menus w j = Some mj"
      by (auto simp: unmount_menus split: if_splits)
    from mw j(2) have "(k, h) \<in> set (eventList w)"
      using assms unfolding subscriptions_inv_def by blast
    moreover have "(k, h) \<noteq> (menu_id (props m), ShowOf i)" "(k, h) \<noteq> (EVENT_HIDE_ALL, HideOf i)"
      using j(2) ji by auto
    ultimately show "(k, h) \<in> set (eventList (unmount i w))" using mem by blast
  qed
qed

lemma moved_step:
  "(\<exists>S. moved S w (step ops inp w)) \<or> (\<exists>i p n c. inp = Mount i p n c) \<or> (\<exists>i. inp = Unmount i)"
proof (cases inp)
  case (Emit k a)
  then show ?thesis using moved_call_subscribers[of _ w ops a] by (auto simp: emit_def)
next
  case (WindowEvent e)
  then show ?thesis using moved_call_listeners[of w ops _ e] by (auto simp: dispatchEvent_def)
next
  case (TimerFires t)
  then show ?thesis using moved_fire_timer[of w t] by auto
next
  case (Resize win)
  have "moved {} w (w\<lparr>window := win\<rparr>)" by (rule moved_fields) simp_all
  then show ?thesis using Resize by auto
qed auto

lemma mount_nodes_inv:
  assumes "nodes_inv w"
  shows "nodes_inv (mount ops i p n c w)"
proof (cases "menus w i")
  case (Some m)
  then show ?thesis using assms by (simp add: mount_mounted)
next
  case None
  have new: "\<exists>m. menus (mount ops i p n c w) i = Some m \<and> node_attached m"
    using None
    by (simp add: mount_def effect_eventManager_def on_def new_inst_def initialState_def
        effect_collectItems_def effect_checkBoundaries_def node_attached_def)
  show ?thesis
    unfolding nodes_inv_def
  proof (intro allI impI)
    fix j m
    assume "menus (mount ops i p n c w) j = Some m"
    then show "node_attached m"
      using new assms by (cases "j = i") (auto simp: mount_menus_other nodes_inv_def)
  qed
qed

lemma unmount_nodes_inv: "nodes_inv w \<Longrightarrow> nodes_inv (unmount i w)"
  by (auto simp: nodes_inv_def unmount_menus split: if_splits)

lemma step_inv:
  assumes "world_inv w"
  shows "world_inv (step ops inp w)"
  using moved_step[of w ops inp]
proof (elim disjE exE)
  fix S assume "moved S w (step ops inp w)"
  then show ?thesis using assms same_frame_subscriptions by (auto simp: moved_def world_inv_def)
next
  fix i p n c assume "inp = Mount i p n c"
  then show ?thesis
    using assms mount_listeners_inv[of w ops i p n c] mount_subscriptions_inv[of w ops i p n c]
      mount_nodes_inv[of w ops i p n c]
    by (simp add: world_inv_def)
next
  fix i assume "inp = Unmount i"
  then show ?thesis
    using assms unmount_listeners_inv[of w i] unmount_subscriptions_inv[of w i]
      unmount_nodes_inv[of w i]
    by (simp add: world_inv_def)
qed

lemma reachable_inv: "reachable ops w \<Longrightarrow> world_inv w"
proof (induction rule: reachable.induct)
  case (reach_start win)
  show ?case
    by (simp add: world_inv_def listeners_inv_def subscriptions_inv_def nodes_inv_def
        empty_world_def visible_in_def)
next
  case (reach_step w inp)
  then show ?case using step_inv by blast
qed

lemma hide_unchanged: "hide_ignores e \<Longrightarrow> hide ops i e w = w"
  by (simp add: hide_def)

lemma setState_hide_state:
  assumes "menus w i = Some m"
  shows "\<exists>m'. menus (setState ops i hide_update w) i = Some m'
            \<and> state m' = reducer (state m) hide_update
            \<and> props m' = props m"
  using assms
  by (auto simp: setState_def Let_def run_effects_menus render_panel_def
      effect_collectItems_def effect_checkBoundaries_def reducer_simps split: option.splits)

lemma hide_state:
  assumes "menus w i = Some m"
  shows "\<exists>m'. menus (hide ops i e w) i = Some m'
            \<and> state m' = (if hide_ignores e then state m else reducer (state m) hide_update)"
proof (cases "hide_ignores e")
  case True
  then show ?thesis using assms by (simp add: hide_def)
next
  case False
  from setState_hide_state[OF assms, of ops] obtain m1 where
    m1: "menus (setState ops i hide_update w) i = Some m1" "state m1 = reducer (state m) hide_update"
    by blast
  show ?thesis
    using False assms m1 by (simp add: hide_def setTimeout_def)
qed

lemma reducer_hide_update:
  "reducer s hide_update = s\<lparr>visible := False\<rparr>"
  by (simp add: reducer_def spread_def hide_update_def no_fields_def)

lemma mounted_world_eq:
  "mounted_world =
     \<lparr>menus = [0 \<mapsto> hidden_inst],
      eventList = [(KStr ''menu'', ShowOf 0), (EVENT_HIDE_ALL, HideOf 0)],
      windowListeners = [], window = sample_window, timers = [], nextTimerId = 1,
      visibilityLog = []\<rparr>"
  by (simp add: mounted_world_def mount_def empty_world_def new_inst_def upd_inst_def
      effect_eventManager_def on_def effect_collectItems_def effect_checkBoundaries_def
      effect_domEvents_def initialState_def recording_ops_def sample_props_def hidden_inst_def)

lemma visible_world_eq:
  "visible_world =
     \<lparr>menus = [0 \<mapsto> shown_inst],
      eventList = [(KStr ''menu'', ShowOf 0), (EVENT_HIDE_ALL, HideOf 0)],
      windowListeners = menu_listeners 0, window = sample_window, timers = [], nextTimerId = 1,
      visibilityLog = [(0, True)]\<rparr>"
  by (simp add: visible_world_def mounted_world_eq emit_def handlers_of_def EVENT_HIDE_ALL_def
      call_subscriber_def show_def show_position_def sample_request_def getMousePosition_def
      sample_event_def stopPropagation_def guardCoord_def hidden_inst_def checkBoundaries_def
      js_add_def js_sub_def fl_numeral sample_props_def sample_window_def sample_node_def
      setState_def reducer_def spread_def
      show_update_def initialState_def upd_inst_def run_effects_def render_panel_def
      cleanup_domEvents_def removeEventListener_def hideOnEvents_def effect_collectItems_def
      recording_ops_def effect_checkBoundaries_def position_update_def no_fields_def
      effect_domEvents_def addEventListener_def clearTimeout_def notify_shown_def shown_inst_def
      menu_listeners_def Let_def)

lemma setState_show_state:
  assumes "menus w i = Some m" and "node_attached m"
    and "q = checkBoundaries (nodeRef m) (disableBoundariesCheck (props m)) (window w) (pos_x p) (pos_y p)"
  shows "\<exists>m'. menus (setState ops i (show_update q ev pr) w) i = Some m'
      \<and> state m' =
          \<lparr>state_x = pos_x (checkBoundaries (attached_node m) (disableBoundariesCheck (props m))
                              (window w) (pos_x p) (pos_y p)),
           state_y = pos_y (checkBoundaries (attached_node m) (disableBoundariesCheck (props m))
                              (window w) (pos_x p) (pos_y p)),
           visible = True, triggerEvent = Some ev, propsFromTrigger = pr, willLeave = False\<rparr>"
proof (cases "visible (state m)")
  case True
  then have "nodeRef m = attached_node m"
    using assms(2) by (simp add: node_attached_def attached_node_def)
  then show ?thesis
    using assms(1,3) True
    by (simp add: setState_def Let_def reducer_def spread_def show_update_def)
next
  case False
  then have "nodeRef m = None" using assms(2) by (simp add: node_attached_def)
  then have q: "q = \<lparr>pos_x = pos_x p, pos_y = pos_y p\<rparr>"
    using assms(3) by (simp add: checkBoundaries_def)
  show ?thesis
    using assms(1) False
    by (simp add: q setState_def Let_def reducer_def spread_def show_update_def
        run_effects_def render_panel_def effect_collectItems_def effect_checkBoundaries_def
        position_update_def no_fields_def attached_node_def)
qed

lemma show_state:
  assumes "menus w i = Some m" and "node_attached m" and "show_position params = Inr p"
  shows "\<exists>w' m'. show ops i params w = Inr w' \<and> menus w' i = Some m'
      \<and> state m' =
          \<lparr>state_x = pos_x (checkBoundaries (attached_node m) (disableBoundariesCheck (props m))
                              (window w) (pos_x p) (pos_y p)),
           state_y = pos_y (checkBoundaries (attached_node m) (disableBoundariesCheck (props m))
                              (window w) (pos_x p) (pos_y p)),
           visible = True, triggerEvent = Some (stopPropagation (sp_event params)),
           propsFromTrigger = sp_props params, willLeave = False\<rparr>"
proof -
  let ?q = "checkBoundaries (nodeRef m) (disableBoundariesCheck (props m)) (window w) (pos_x p) (pos_y p)"
  let ?w1 = "setState ops i (show_update ?q (stopPropagation (sp_event params)) (sp_props params)) w"
  from setState_show_state[OF assms(1,2) refl, of ops p "stopPropagation (sp_event params)" "sp_props params"]
  obtain m1 where m1: "menus ?w1 i = Some m1"
    and s1: "state m1 =
          \<lparr>state_x = pos_x (checkBoundaries (attached_node m) (disableBoundariesCheck (props m))
                              (window w) (pos_x p) (pos_y p)),
           state_y = pos_y (checkBoundaries (attached_node m) (disableBoundariesCheck (props m))
                              (window w) (pos_x p) (pos_y p)),
           visible = True, triggerEvent = Some (stopPropagation (sp_event params)),
           propsFromTrigger = sp_props params, willLeave = False\<rparr>"
    by blast
  have w': "show ops i params w = Inr (notify_shown i (clearTimeout (visibilityId m) ?w1))"
    using assms(1,3) by (simp add: show_def)
  have "\<exists>m'. menus (notify_shown i (clearTimeout (visibilityId m) ?w1)) i = Some m'
      \<and> state m' = state m1"
    using m1 by (auto simp: notify_shown_def clearTimeout_menus split: option.splits)
  then show ?thesis using w' s1 by auto
qed

lemma getMousePosition_stopPropagation:
  "getMousePosition (stopPropagation e) = getMousePosition e"
  by (simp add: getMousePosition_def stopPropagation_def split: option.splits list.splits)

lemma reachable_mounted_world: "reachable recording_ops mounted_world"
  unfolding mounted_world_def by (rule reach_step) (rule reach_start)

lemma reachable_visible_world: "reachable recording_ops visible_world"
  unfolding visible_world_def by (rule reach_step) (rule reachable_mounted_world)

lemma menus_mounted_world: "menus mounted_world 0 = Some hidden_inst"
  by (simp add: mounted_world_eq)

lemma menus_visible_world: "menus visible_world 0 = Some shown_inst"
  by (simp add: visible_world_eq)

lemma registered_keyboard:
  assumes "reachable ops w" and "menus w i = Some m"
  shows "KeyboardOf i \<in> set (handlers_of ''keydown'' (windowListeners w)) \<longleftrightarrow> visible (state m)"
proof -
  have "listeners_inv w" using reachable_inv[OF assms(1)] by (simp add: world_inv_def)
  then have "(''keydown'', KeyboardOf i) \<in> set (windowListeners w) \<longleftrightarrow> visible (state m)"
    using assms(2) by (auto simp: listeners_inv_def visible_in_def menu_listeners_def)
  moreover have "KeyboardOf i \<in> set (handlers_of ''keydown'' (windowListeners w)) \<longleftrightarrow>
      (''keydown'', KeyboardOf i) \<in> set (windowListeners w)"
    by (force simp: handlers_of_def)
  ultimately show ?thesis by simp
qed

lemma handlers_of_mem: "h \<in> set (handlers_of k tab) \<longleftrightarrow> (k, h) \<in> set tab"
  by (force simp: handlers_of_def)

lemma show_succeeds:
  "show_position params = Inr p \<Longrightarrow> \<exists>w1. show ops i params w = Inr w1"
  by (cases "menus w i") (simp_all add: show_def)

lemma moved_mounted:
  assumes "moved S w w'"
  shows "menus w' j = None \<longleftrightarrow> menus w j = None"
  using assms same_frame_fwd[of w w' j] same_frame_bwd[of w w' j]
  by (cases "menus w j"; cases "menus w' j") (auto simp: moved_def)

lemma call_subscribers_show:
  assumes "\<forall>h\<in>set hs. \<exists>j. h = ShowOf j" and "show_position params = Inr p"
  shows "\<exists>w'. call_subscribers ops hs (ShowArg params) w = (None, w')
     \<and> (\<forall>j. ShowOf j \<in> set hs \<longrightarrow> menus w j \<noteq> None \<longrightarrow> visible_in w' j)
     \<and> (\<forall>j. ShowOf j \<notin> set hs \<longrightarrow> menus w' j = menus w j)"
  using assms(1)
proof (induction hs arbitrary: w)
  case Nil
  then show ?case by simp
next
  case (Cons h hs)
  then obtain j0 where h: "h = ShowOf j0" by auto
  from show_succeeds[OF assms(2)] obtain w1 where w1: "show ops j0 params w = Inr w1" by blast
  from Cons.prems have "\<forall>h\<in>set hs. \<exists>j. h = ShowOf j" by simp
  from Cons.IH[OF this, of w1] obtain w' where
    c: "call_subscribers ops hs (ShowArg params) w1 = (None, w')"
    and vis: "\<forall>j. ShowOf j \<in> set hs \<longrightarrow> menus w1 j \<noteq> None \<longrightarrow> visible_in w' j"
    and oth: "\<forall>j. ShowOf j \<notin> set hs \<longrightarrow> menus w' j = menus w1 j"
    by blast
  have mv: "moved {j0} w w1" using moved_show[OF w1] .
  have "call_subscribers ops (h # hs) (ShowArg params) w = (None, w')"
    using h w1 c by (simp add: call_subscriber_def)
  moreover have "visible_in w' j" if sj: "ShowOf j \<in> set (h # hs)" and mj: "menus w j \<noteq> None" for j
  proof (cases "ShowOf j \<in> set hs")
    case True
    moreover have "menus w1 j \<noteq> None" using moved_mounted[OF mv, of j] mj by simp
    ultimately show ?thesis using vis by blast
  next
    case False
    then have "j = j0" using sj h by simp
    then obtain m0 where "menus w j0 = Some m0" using mj by auto
    from show_visible[OF w1 this] have "visible_in w1 j0" .
    moreover have "menus w' j0 = menus w1 j0" using oth False \<open>j = j0\<close> by simp
    ultimately show ?thesis using \<open>j = j0\<close> by (simp add: visible_in_def)
  qed
  moreover have "menus w' j = menus w j" if "ShowOf j \<notin> set (h # hs)" for j
  proof -
    from that have "j \<noteq> j0" "ShowOf j \<notin> set hs" using h by auto
    then show ?thesis using oth show_others[OF w1, of j] by simp
  qed
  ultimately show ?case by blast
qed

lemma call_subscribers_show_fails:
  assumes "\<forall>h\<in>set hs. \<exists>j. h = ShowOf j \<and> menus w j \<noteq> None" and "show_position params = Inl err"
  shows "snd (call_subscribers ops hs (ShowArg params) w) = w"
proof (cases hs)
  case Nil
  then show ?thesis by simp
next
  case (Cons h hs')
  then obtain j where "h = ShowOf j" "menus w j \<noteq> None" using assms(1) by auto
  then show ?thesis
    using Cons assms(2) by (auto simp: call_subscriber_def show_def)
qed

lemma call_subscribers_hide:
  assumes "\<forall>h\<in>set hs. \<exists>j. h = HideOf j"
  shows "\<exists>w'. call_subscribers ops hs a w = (None, w')
     \<and> (\<forall>j. HideOf j \<in> set hs \<longrightarrow> \<not> visible_in w' j)
     \<and> (\<forall>j. \<not> visible_in w j \<longrightarrow> \<not> visible_in w' j)"
  using assms
proof (induction hs arbitrary: w)
  case Nil
  then show ?case by simp
next
  case (Cons h hs)
  then obtain j0 where h: "h = HideOf j0" by auto
  let ?w1 = "hide ops j0 None w"
  from Cons.prems have "\<forall>h\<in>set hs. \<exists>j. h = HideOf j" by simp
  from Cons.IH[OF this, of ?w1] obtain w' where
    c: "call_subscribers ops hs a ?w1 = (None, w')"
    and hid: "\<forall>j. HideOf j \<in> set hs \<longrightarrow> \<not> visible_in w' j"
    and stay: "\<forall>j. \<not> visible_in ?w1 j \<longrightarrow> \<not> visible_in w' j"
    by blast
  have n0: "\<not> visible_in ?w1 j0" by (rule hide_not_visible) (simp add: hide_ignores_def)
  have mono: "\<not> visible_in w j \<Longrightarrow> \<not> visible_in ?w1 j" for j
    using moved_hide[of w ops j0 None] by (auto simp: moved_def)
  have "call_subscribers ops (h # hs) a w = (None, w')"
    using h c by (simp add: call_subscriber_def)
  moreover have "\<not> visible_in w' j" if "HideOf j \<in> set (h # hs)" for j
    using that h hid stay n0 by auto
  moreover have "\<not> visible_in w' j" if "\<not> visible_in w j" for j
    using that mono stay by blast
  ultimately show ?case by blast
qed

lemma moved_call_subscribers_NoArg: "moved {} w (snd (call_subscribers ops hs NoArg w))"
proof (induction hs arbitrary: w)
  case Nil
  then show ?case by simp
next
  case (Cons h hs)
  show ?case
  proof (cases h)
    case (ShowOf j)
    then show ?thesis by (simp add: call_subscriber_def)
  next
    case (HideOf j)
    from moved_trans[OF moved_hide[of w ops j None] Cons.IH[of "hide ops j None w"]]
    show ?thesis using HideOf by (simp add: call_subscriber_def)
  qed
qed

lemma reachable_subscriptions:
  "reachable ops w \<Longrightarrow> subscriptions_inv w"
  by (drule reachable_inv) (simp add: world_inv_def)

lemma show_handlers:
  assumes "subscriptions_inv w" and "k \<noteq> EVENT_HIDE_ALL"
  shows "h \<in> set (handlers_of k (eventList w)) \<longleftrightarrow>
           (\<exists>j mj. menus w j = Some mj \<and> menu_id (props mj) = k \<and> h = ShowOf j)"
  using assms unfolding subscriptions_inv_def handlers_of_mem by auto

lemma hide_handlers:
  assumes "subscriptions_inv w"
    and "\<forall>j mj. menus w j = Some mj \<longrightarrow> menu_id (props mj) \<noteq> EVENT_HIDE_ALL"
  shows "h \<in> set (handlers_of EVENT_HIDE_ALL (eventList w)) \<longleftrightarrow>
           (\<exists>j mj. menus w j = Some mj \<and> h = HideOf j)"
proof -
  have "(EVENT_HIDE_ALL, h) \<in> set (eventList w) \<longleftrightarrow>
        (\<exists>j mj. menus w j = Some mj \<and>
           ((EVENT_HIDE_ALL = menu_id (props mj) \<and> h = ShowOf j) \<or> h = HideOf j))"
    using assms(1) unfolding subscriptions_inv_def by simp
  also have "\<dots> \<longleftrightarrow> (\<exists>j mj. menus w j = Some mj \<and> h = HideOf j)"
    using assms(2) by metis
  finally show ?thesis by (simp add: handlers_of_mem)
qed

lemma fire_timer_state:
  assumes "menus w i = Some m"
  shows "\<exists>m'. menus (fire_timer t w) i = Some m' \<and> state m' = state m"
  using assms by (auto simp: fire_timer_def split: option.splits)

lemma visible_change_step:
  assumes "reachable ops w" and "menus w i = Some m"
    and "menus (step ops inp w) i = Some m'"
    and "visible (state m') \<noteq> visible (state m)"
  shows "if visible (state m') then (\<exists>params. inp = Emit (menu_id (props m)) (ShowArg params))
         else (\<exists>k a. inp = Emit k a) \<or> (\<exists>e. inp = WindowEvent e)"
proof (cases inp)
  case (Mount j p n c)
  have "menus (mount ops j p n c w) i = menus w i"
    using assms(2) by (cases "j = i") (simp_all add: mount_mounted mount_menus_other)
  then show ?thesis using assms Mount by simp
next
  case (Unmount j)
  then show ?thesis using assms by (auto simp: unmount_menus split: if_splits)
next
  case (TimerFires t)
  then show ?thesis using assms fire_timer_state[OF assms(2), of t] by auto
next
  case (Resize win)
  then show ?thesis using assms by auto
next
  case (WindowEvent e)
  have "moved {} w (step ops inp w)"
    using WindowEvent moved_call_listeners[of w ops _ e] by (simp add: dispatchEvent_def)
  then have "visible_in (step ops inp w) i \<longrightarrow> visible_in w i" by (simp add: moved_def)
  then have "visible (state m') \<longrightarrow> visible (state m)"
    using assms(2,3) by (simp add: visible_in_def)
  then show ?thesis using assms(4) WindowEvent by auto
next
  case (Emit k a)
  show ?thesis
  proof (cases "visible (state m')")
    case False
    then show ?thesis using Emit by simp
  next
    case True
    then have on: "visible_in (step ops inp w) i" "\<not> visible_in w i"
      using assms(2,3,4) by (simp_all add: visible_in_def)
    obtain params where a: "a = ShowArg params"
    proof (cases a)
      case NoArg
      have "moved {} w (step ops inp w)"
        using Emit NoArg moved_call_subscribers_NoArg[of w ops] by (simp add: emit_def)
      then show ?thesis using on by (simp add: moved_def)
    qed
    have "moved (\<Union>(shown_by ` set (handlers_of k (eventList w)))) w (step ops inp w)"
      using Emit moved_call_subscribers[of _ w ops a] by (simp add: emit_def)
    then have "i \<in> \<Union>(shown_by ` set (handlers_of k (eventList w)))"
      using on unfolding moved_def by blast
    then obtain h where h: "h \<in> set (handlers_of k (eventList w))" "i \<in> shown_by h" by blast
    from h(2) have "h = ShowOf i" by (cases h) simp_all
    then have "(k, ShowOf i) \<in> set (eventList w)" using h(1) by (simp add: handlers_of_mem)
    then obtain j mj where "menus w j = Some mj"
      "(k = menu_id (props mj) \<and> ShowOf i = ShowOf j) \<or> (k = EVENT_HIDE_ALL \<and> ShowOf i = HideOf j)"
      using reachable_subscriptions[OF assms(1)] unfolding subscriptions_inv_def by blast
    then have "k = menu_id (props m)" using assms(2) by auto
    then show ?thesis using True Emit a by simp
  qed
qed


lemma sample_position:
  "show_position sample_request = Inr \<lparr>pos_x = 900, pos_y = 100\<rparr>"
  by (simp add: show_position_def sample_request_def getMousePosition_def stopPropagation_def
      sample_event_def guardCoord_def)

lemma touchless_position: "show_position touchless_request = Inl TypeError"
  by (simp add: show_position_def touchless_request_def sample_request_def getMousePosition_def
      stopPropagation_def sample_event_def)

lemma zero_world_eventList:
  "eventList zero_world = [(KNum 0, ShowOf 0), (KNum 0, HideOf 0)]"
  by (simp add: zero_world_def mount_eventList empty_world_def zero_props_def sample_props_def
      EVENT_HIDE_ALL_def)

lemma zero_world_menu: "menus zero_world 1 = None"
  by (simp add: zero_world_def mount_menus_other empty_world_def)

lemma two_world_eventList:
  "eventList two_world =
     [(KNum 0, ShowOf 0), (KNum 0, HideOf 0), (KStr ''menu'', ShowOf 1), (KNum 0, HideOf 1)]"
  by (simp add: two_world_def mount_eventList zero_world_menu zero_world_eventList
      sample_props_def EVENT_HIDE_ALL_def del: One_nat_def)

lemma zero_world_id:
  "map_option (\<lambda>m. menu_id (props m)) (menus zero_world 0) = Some (KNum 0)"
proof -
  have "menus (empty_world sample_window :: (unit, string list) world) 0 = None"
    by (simp add: empty_world_def)
  from mount_menus_new[OF this, of recording_ops zero_props sample_node "[]"]
  show ?thesis by (auto simp: zero_world_def zero_props_def)
qed


text \<open>
  What \<open>setPosition\<close> leaves behind, in terms of the rectangle read at the start of the
  call.
\<close>

lemma setPosition_result:
  "setPosition spacing win None = None
   \<and> (\<exists>nd'. setPosition spacing win (Some nd) = Some nd'
         \<and> panel_layout nd' = panel_layout nd
         \<and> style_left (panel_style nd') =
             (if rect_right (getBoundingClientRect nd) > innerWidth win
              then ''unset'' else ''calc(100% + '' @ spacing 3 @ '')'')
         \<and> style_right (panel_style nd') =
             (if rect_right (getBoundingClientRect nd) > innerWidth win
              then ''calc(100% + '' @ spacing 3 @ '')'' else ''unset'')
         \<and> style_top (panel_style nd') =
             (if rect_bottom (getBoundingClientRect nd) > innerHeight win
              then ''unset'' else ''calc(-1 * '' @ spacing 2 @ '')'')
         \<and> style_bottom (panel_style nd') =
             (if rect_bottom (getBoundingClientRect nd) > innerHeight win
              then ''calc(-1 * '' @ spacing 2 @ '')'' else ''unset''))"
  by (simp add: setPosition_def Let_def sidePadding_def negativePadding_def)

section \<open>The claims\<close>




text \<open>
  C2. While a menu is visible its keyboard handler is the \<open>keydown\<close> listener of
  \<open>window\<close>, and it maps \<open>ArrowUp\<close> to \<open>moveUp\<close>, \<open>ArrowDown\<close> to \<open>moveDown\<close>,
  \<open>ArrowRight\<close> to \<open>openSubmenu\<close>, \<open>ArrowLeft\<close> to \<open>closeSubmenu\<close> and \<open>Escape\<close> to
  \<open>hide\<close>; \<open>Enter\<close> and the space key call \<open>openSubmenu\<close> and hide the menu exactly
  when it returns false; every other key goes to \<open>matchKeys\<close>. The menu is hidden
  afterwards exactly in the cases that call \<open>hide\<close>.
\<close>

theorem handleKeyboard_dispatch:
  assumes "reachable ops w" and "menus w i = Some m" and "visible (state m)"
  shows "KeyboardOf i \<in> set (handlers_of ''keydown'' (windowListeners w))
   \<and> call_listener ops (KeyboardOf i) e w = handleKeyboard ops i e w
   \<and> snd (handleKeyboard ops i e w) =
      (if key e = ''ArrowUp'' then upd_inst i (\<lambda>m. m\<lparr>nav := moveUp ops (nav m)\<rparr>) w
       else if key e = ''ArrowDown'' then upd_inst i (\<lambda>m. m\<lparr>nav := moveDown ops (nav m)\<rparr>) w
       else if key e = ''ArrowRight'' then
         upd_inst i (\<lambda>m. m\<lparr>nav := snd (openSubmenu ops (nav m))\<rparr>) w
       else if key e = ''ArrowLeft'' then
         upd_inst i (\<lambda>m. m\<lparr>nav := closeSubmenu ops (nav m)\<rparr>) w
       else if key e = ''Escape'' then hide ops i None w
       else if key e = ''Enter'' \<or> key e = '' '' then
         (if fst (openSubmenu ops (nav m))
          then upd_inst i (\<lambda>m. m\<lparr>nav := snd (openSubmenu ops (nav m))\<rparr>) w
          else hide ops i None (upd_inst i (\<lambda>m. m\<lparr>nav := snd (openSubmenu ops (nav m))\<rparr>) w))
       else upd_inst i (\<lambda>m. m\<lparr>nav := snd (matchKeys ops e (nav m))\<rparr>) w)
   \<and> (key e = ''Escape'' \<or> ((key e = ''Enter'' \<or> key e = '' '') \<and> \<not> fst (openSubmenu ops (nav m)))
        \<longrightarrow> \<not> visible_in (snd (handleKeyboard ops i e w)) i)
   \<and> (\<not> (key e = ''Escape'' \<or> ((key e = ''Enter'' \<or> key e = '' '') \<and> \<not> fst (openSubmenu ops (nav m))))
        \<longrightarrow> visible_in (snd (handleKeyboard ops i e w)) i)"
proof -
  have u: "upd_inst i (\<lambda>m. m\<lparr>nav := c\<rparr>) w = upd_inst i (\<lambda>m'. m'\<lparr>nav := f (nav m')\<rparr>) w"
    if "c = f (nav m)" for c f
    using assms(2) that by (simp add: upd_inst_def)
  have d: "snd (handleKeyboard ops i e w) =
      (if key e = ''ArrowUp'' then upd_inst i (\<lambda>m. m\<lparr>nav := moveUp ops (nav m)\<rparr>) w
       else if key e = ''ArrowDown'' then upd_inst i (\<lambda>m. m\<lparr>nav := moveDown ops (nav m)\<rparr>) w
       else if key e = ''ArrowRight'' then
         upd_inst i (\<lambda>m. m\<lparr>nav := snd (openSubmenu ops (nav m))\<rparr>) w
       else if key e = ''ArrowLeft'' then
         upd_inst i (\<lambda>m. m\<lparr>nav := closeSubmenu ops (nav m)\<rparr>) w
       else if key e = ''Escape'' then hide ops i None w
       else if key e = ''Enter'' \<or> key e = '' '' then
         (if fst (openSubmenu ops (nav m))
          then upd_inst i (\<lambda>m. m\<lparr>nav := snd (openSubmenu ops (nav m))\<rparr>) w
          else hide ops i None (upd_inst i (\<lambda>m. m\<lparr>nav := snd (openSubmenu ops (nav m))\<rparr>) w))
       else upd_inst i (\<lambda>m. m\<lparr>nav := snd (matchKeys ops e (nav m))\<rparr>) w)"
    using assms(2)
    by (simp add: handleKeyboard_def Let_def split_def
        u[of "snd (openSubmenu ops (nav m))" "\<lambda>c. snd (openSubmenu ops c)"]
        u[of "snd (matchKeys ops e (nav m))" "\<lambda>c. snd (matchKeys ops e c)"])
  have v: "visible_in (upd_inst i (\<lambda>m. m\<lparr>nav := f (nav m)\<rparr>) w) i" for f
    using assms(2,3) by (simp add: visible_in_def)
  have h: "\<not> visible_in (hide ops i None w') i" for w'
    by (rule hide_not_visible) (simp add: hide_ignores_def)
  have off: "key e = ''Escape'' \<or> ((key e = ''Enter'' \<or> key e = '' '') \<and> \<not> fst (openSubmenu ops (nav m)))
        \<longrightarrow> \<not> visible_in (snd (handleKeyboard ops i e w)) i"
    unfolding d using h by auto
  have on: "\<not> (key e = ''Escape'' \<or> ((key e = ''Enter'' \<or> key e = '' '') \<and> \<not> fst (openSubmenu ops (nav m))))
        \<longrightarrow> visible_in (snd (handleKeyboard ops i e w)) i"
    unfolding d using v by auto
  show ?thesis
    using registered_keyboard[OF assms(1,2)] assms(3) d off on
    by (simp add: call_listener_def)
qed

theorem handleKeyboard_dispatch_witness:
  "KeyboardOf 0 \<in> set (handlers_of ''keydown'' (windowListeners visible_world))
   \<and> \<not> visible_in (snd (handleKeyboard recording_ops 0 (key_event ''Escape'') visible_world)) 0
   \<and> snd (handleKeyboard recording_ops 0 (key_event ''ArrowUp'') visible_world)
       = upd_inst 0 (\<lambda>m. m\<lparr>nav := nav m @ [''moveUp'']\<rparr>) visible_world
   \<and> visible_in (snd (handleKeyboard recording_ops 0 (key_event ''ArrowUp'') visible_world)) 0"
proof -
  have v: "visible (state shown_inst)" by (simp add: shown_inst_def)
  have k: "key (key_event ''Escape'') = ''Escape''" "key (key_event ''ArrowUp'') = ''ArrowUp''"
    by (simp_all add: key_event_def)
  have up: "moveUp recording_ops = (\<lambda>c. c @ [''moveUp''])" by (simp add: recording_ops_def)
  note esc = handleKeyboard_dispatch[OF reachable_visible_world menus_visible_world v,
      of "key_event ''Escape''"]
  note arr = handleKeyboard_dispatch[OF reachable_visible_world menus_visible_world v,
      of "key_event ''ArrowUp''"]
  have 1: "KeyboardOf 0 \<in> set (handlers_of ''keydown'' (windowListeners visible_world))"
    using esc[THEN conjunct1] .
  have 2: "\<not> visible_in (snd (handleKeyboard recording_ops 0 (key_event ''Escape'') visible_world)) 0"
    using esc[THEN conjunct2, THEN conjunct2, THEN conjunct2, THEN conjunct1] k by simp
  have 3: "snd (handleKeyboard recording_ops 0 (key_event ''ArrowUp'') visible_world)
       = upd_inst 0 (\<lambda>m. m\<lparr>nav := nav m @ [''moveUp'']\<rparr>) visible_world"
    using arr[THEN conjunct2, THEN conjunct2, THEN conjunct1] by (simp add: k up)
  have 4: "visible_in (snd (handleKeyboard recording_ops 0 (key_event ''ArrowUp'') visible_world)) 0"
    using arr[THEN conjunct2, THEN conjunct2, THEN conjunct2, THEN conjunct2] k by simp
  show ?thesis using 1 2 3 4 by blast
qed

text \<open>
  C3, as amended. Mounting a menu subscribes its \<open>show\<close> to its id and its \<open>hide\<close> to
  \<open>EVENT.HIDE_ALL\<close>; both are subscribed while the menu is mounted and neither is after
  the unmount. Hence emitting an id other than the value of \<open>EVENT.HIDE_ALL\<close> with a
  show request makes the mounted menus of that id visible and leaves every other menu as
  it was (a request whose position cannot be read changes nothing), and emitting
  \<open>EVENT.HIDE_ALL\<close> leaves no menu visible, provided no mounted menu has the value of
  \<open>EVENT.HIDE_ALL\<close> as its id.
\<close>

theorem event_manager_wiring:
  assumes "reachable ops w"
  shows "(menus w i = None \<longrightarrow>
            eventList (mount ops i p n c w) =
              eventList w @ [(menu_id p, ShowOf i), (EVENT_HIDE_ALL, HideOf i)])
   \<and> (menus w i = Some m \<longrightarrow>
         (menu_id (props m), ShowOf i) \<in> set (eventList w)
         \<and> (EVENT_HIDE_ALL, HideOf i) \<in> set (eventList w)
         \<and> (\<forall>k'. (k', ShowOf i) \<notin> set (eventList (unmount i w))
                \<and> (k', HideOf i) \<notin> set (eventList (unmount i w))))
   \<and> (k \<noteq> EVENT_HIDE_ALL \<longrightarrow> show_position params = Inr pos \<longrightarrow>
         (\<exists>w'. emit ops k (ShowArg params) w = (None, w')
            \<and> (\<forall>j mj. menus w j = Some mj \<longrightarrow>
                  (if menu_id (props mj) = k then visible_in w' j else menus w' j = Some mj))))
   \<and> (k \<noteq> EVENT_HIDE_ALL \<longrightarrow> show_position params = Inl err \<longrightarrow>
         snd (emit ops k (ShowArg params) w) = w)
   \<and> ((\<forall>j mj. menus w j = Some mj \<longrightarrow> menu_id (props mj) \<noteq> EVENT_HIDE_ALL) \<longrightarrow>
         (\<exists>w'. emit ops EVENT_HIDE_ALL NoArg w = (None, w') \<and> (\<forall>j. \<not> visible_in w' j)))"
proof (intro conjI impI)
  assume "menus w i = None"
  then show "eventList (mount ops i p n c w) =
              eventList w @ [(menu_id p, ShowOf i), (EVENT_HIDE_ALL, HideOf i)]"
    by (rule mount_eventList)
next
  assume m: "menus w i = Some m"
  have inv: "subscriptions_inv w" using assms by (rule reachable_subscriptions)
  show "(menu_id (props m), ShowOf i) \<in> set (eventList w)"
    using inv m unfolding subscriptions_inv_def by blast
  show "(EVENT_HIDE_ALL, HideOf i) \<in> set (eventList w)"
    using inv m unfolding subscriptions_inv_def by blast
  have "reachable ops (step ops (Unmount i) w)" using assms by (rule reach_step)
  then have "subscriptions_inv (unmount i w)" using reachable_subscriptions by fastforce
  moreover have "menus (unmount i w) i = None" by (simp add: unmount_menus)
  ultimately show "\<forall>k'. (k', ShowOf i) \<notin> set (eventList (unmount i w))
                \<and> (k', HideOf i) \<notin> set (eventList (unmount i w))"
    unfolding subscriptions_inv_def by auto
next
  assume k: "k \<noteq> EVENT_HIDE_ALL" and p: "show_position params = Inr pos"
  have inv: "subscriptions_inv w" using assms by (rule reachable_subscriptions)
  let ?hs = "handlers_of k (eventList w)"
  have all: "\<forall>h\<in>set ?hs. \<exists>j. h = ShowOf j" using show_handlers[OF inv k] by blast
  from call_subscribers_show[OF all p, of ops w] obtain w' where
    c: "call_subscribers ops ?hs (ShowArg params) w = (None, w')"
    and vis: "\<forall>j. ShowOf j \<in> set ?hs \<longrightarrow> menus w j \<noteq> None \<longrightarrow> visible_in w' j"
    and oth: "\<forall>j. ShowOf j \<notin> set ?hs \<longrightarrow> menus w' j = menus w j"
    by blast
  have "if menu_id (props mj) = k then visible_in w' j else menus w' j = Some mj"
    if mj: "menus w j = Some mj" for j mj
  proof (cases "menu_id (props mj) = k")
    case True
    then have "ShowOf j \<in> set ?hs" using show_handlers[OF inv k, of "ShowOf j"] mj by auto
    then show ?thesis using vis mj True by auto
  next
    case False
    then have "ShowOf j \<notin> set ?hs" using show_handlers[OF inv k, of "ShowOf j"] mj by auto
    then show ?thesis using oth mj False by auto
  qed
  then show "\<exists>w'. emit ops k (ShowArg params) w = (None, w')
            \<and> (\<forall>j mj. menus w j = Some mj \<longrightarrow>
                  (if menu_id (props mj) = k then visible_in w' j else menus w' j = Some mj))"
    using c by (auto simp: emit_def)
next
  assume k: "k \<noteq> EVENT_HIDE_ALL" and p: "show_position params = Inl err"
  have inv: "subscriptions_inv w" using assms by (rule reachable_subscriptions)
  have "\<forall>h\<in>set (handlers_of k (eventList w)). \<exists>j. h = ShowOf j \<and> menus w j \<noteq> None"
    using show_handlers[OF inv k] by auto
  from call_subscribers_show_fails[OF this p]
  show "snd (emit ops k (ShowArg params) w) = w" by (simp add: emit_def)
next
  assume ids: "\<forall>j mj. menus w j = Some mj \<longrightarrow> menu_id (props mj) \<noteq> EVENT_HIDE_ALL"
  have inv: "subscriptions_inv w" using assms by (rule reachable_subscriptions)
  let ?hs = "handlers_of EVENT_HIDE_ALL (eventList w)"
  have all: "\<forall>h\<in>set ?hs. \<exists>j. h = HideOf j" using hide_handlers[OF inv ids] by blast
  from call_subscribers_hide[OF all, of ops NoArg w] obtain w' where
    c: "call_subscribers ops ?hs NoArg w = (None, w')"
    and hid: "\<forall>j. HideOf j \<in> set ?hs \<longrightarrow> \<not> visible_in w' j"
    and stay: "\<forall>j. \<not> visible_in w j \<longrightarrow> \<not> visible_in w' j"
    by blast
  have "\<not> visible_in w' j" for j
  proof (cases "menus w j")
    case None
    then have "\<not> visible_in w j" by (simp add: visible_in_def)
    then show ?thesis using stay by blast
  next
    case (Some mj)
    then have "HideOf j \<in> set ?hs" using hide_handlers[OF inv ids, of "HideOf j"] by auto
    then show ?thesis using hid by blast
  qed
  then show "\<exists>w'. emit ops EVENT_HIDE_ALL NoArg w = (None, w') \<and> (\<forall>j. \<not> visible_in w' j)"
    using c by (auto simp: emit_def)
qed

theorem event_manager_wiring_witness:
  "eventList (mount recording_ops 1 sample_props sample_node [] mounted_world) =
     eventList mounted_world @ [(KStr ''menu'', ShowOf 1), (EVENT_HIDE_ALL, HideOf 1)]
   \<and> (KStr ''menu'', ShowOf 0) \<in> set (eventList mounted_world)
   \<and> (EVENT_HIDE_ALL, HideOf 0) \<in> set (eventList mounted_world)
   \<and> (KStr ''menu'', ShowOf 0) \<notin> set (eventList (unmount 0 mounted_world))
   \<and> (\<exists>w'. emit recording_ops (KStr ''menu'') (ShowArg sample_request) mounted_world = (None, w')
         \<and> visible_in w' 0)
   \<and> (\<exists>w'. emit recording_ops EVENT_HIDE_ALL NoArg visible_world = (None, w')
         \<and> \<not> visible_in w' 0)"
proof -
  have none: "menus mounted_world 1 = None" by (simp add: mounted_world_eq)
  have id: "menu_id sample_props = KStr ''menu''" "menu_id (props hidden_inst) = KStr ''menu''"
    by (simp_all add: sample_props_def hidden_inst_def)
  have ne: "KStr ''menu'' \<noteq> EVENT_HIDE_ALL" by (simp add: EVENT_HIDE_ALL_def)
  have pos: "show_position sample_request = Inr \<lparr>pos_x = 900, pos_y = 100\<rparr>"
    by (simp add: show_position_def sample_request_def getMousePosition_def stopPropagation_def
        sample_event_def guardCoord_def)
  have ids: "\<forall>j mj. menus visible_world j = Some mj \<longrightarrow> menu_id (props mj) \<noteq> EVENT_HIDE_ALL"
    by (simp add: visible_world_eq shown_inst_def sample_props_def EVENT_HIDE_ALL_def)
  note a = event_manager_wiring[OF reachable_mounted_world,
      of 1 sample_props sample_node "[]" undefined "KStr ''menu''" sample_request
         "\<lparr>pos_x = 900, pos_y = 100\<rparr>" undefined]
  note b = event_manager_wiring[OF reachable_mounted_world,
      of 0 sample_props sample_node "[]" hidden_inst "KStr ''menu''" sample_request
         "\<lparr>pos_x = 900, pos_y = 100\<rparr>" undefined]
  note c = event_manager_wiring[OF reachable_visible_world,
      of 0 sample_props sample_node "[]" shown_inst "KStr ''menu''" sample_request
         "\<lparr>pos_x = 900, pos_y = 100\<rparr>" undefined]
  have 1: "eventList (mount recording_ops 1 sample_props sample_node [] mounted_world) =
     eventList mounted_world @ [(KStr ''menu'', ShowOf 1), (EVENT_HIDE_ALL, HideOf 1)]"
    using a[THEN conjunct1] none id by simp
  have 2: "(KStr ''menu'', ShowOf 0) \<in> set (eventList mounted_world)"
    "(EVENT_HIDE_ALL, HideOf 0) \<in> set (eventList mounted_world)"
    "(KStr ''menu'', ShowOf 0) \<notin> set (eventList (unmount 0 mounted_world))"
    using b[THEN conjunct2, THEN conjunct1] menus_mounted_world id by simp_all
  have 3: "\<exists>w'. emit recording_ops (KStr ''menu'') (ShowArg sample_request) mounted_world = (None, w')
         \<and> visible_in w' 0"
    using b[THEN conjunct2, THEN conjunct2, THEN conjunct1] ne pos menus_mounted_world id
    by fastforce
  have 4: "\<exists>w'. emit recording_ops EVENT_HIDE_ALL NoArg visible_world = (None, w')
         \<and> \<not> visible_in w' 0"
    using c[THEN conjunct2, THEN conjunct2, THEN conjunct2, THEN conjunct2] ids by blast
  show ?thesis using 1 2 3 4 by blast
qed

text \<open>
  C3 as stated fails for a menu whose id is the number \<open>0\<close>, the value of
  \<open>EVENT.HIDE_ALL\<close>: its \<open>show\<close> and its \<open>hide\<close> are subscribed under one key. Emitting
  the id calls \<open>show\<close> and then \<open>hide\<close>, and the menu is not visible afterwards. Emitting
  \<open>EVENT.HIDE_ALL\<close> calls that \<open>show\<close> without parameters first, which throws, and a
  second menu that is visible stays visible. And a show request without position whose
  event has an empty \<open>changedTouches\<close> throws and shows nothing.
\<close>

theorem hide_all_key_collision:
  "map_option (\<lambda>m. menu_id (props m)) (menus zero_world 0) = Some (KNum 0)
   \<and> fst (emit recording_ops (KNum 0) (ShowArg sample_request) zero_world) = None
   \<and> \<not> visible_in (snd (emit recording_ops (KNum 0) (ShowArg sample_request) zero_world)) 0
   \<and> visible_in two_visible 1
   \<and> emit recording_ops EVENT_HIDE_ALL NoArg two_visible = (Some TypeError, two_visible)
   \<and> emit recording_ops (KStr ''menu'') (ShowArg touchless_request) mounted_world
       = (Some TypeError, mounted_world)"
proof -
  obtain w1 where w1: "show recording_ops 0 sample_request zero_world = Inr w1"
    using show_succeeds[OF sample_position] by blast
  have e1: "emit recording_ops (KNum 0) (ShowArg sample_request) zero_world
              = (None, hide recording_ops 0 None w1)"
    by (simp add: emit_def handlers_of_def zero_world_eventList call_subscriber_def w1)
  have h1: "\<not> visible_in (hide recording_ops 0 None w1) 0"
    by (rule hide_not_visible) (simp add: hide_ignores_def)
  have "menus zero_world 1 = None" by (rule zero_world_menu)
  from mount_menus_new[OF this, of recording_ops sample_props sample_node "[]"]
  obtain m where m: "menus two_world 1 = Some m" by (auto simp: two_world_def simp del: One_nat_def)
  obtain w2 where w2: "show recording_ops 1 sample_request two_world = Inr w2"
    using show_succeeds[OF sample_position] by blast
  have tv: "two_visible = w2"
    by (simp add: two_visible_def emit_def handlers_of_def two_world_eventList
        call_subscriber_def w2 del: One_nat_def)
  have v2: "visible_in two_visible 1" unfolding tv using w2 m by (rule show_visible)
  have "moved {1} two_world w2" using w2 by (rule moved_show)
  then have "eventList w2 = eventList two_world" by (simp add: moved_def same_frame_def)
  then have e2: "emit recording_ops EVENT_HIDE_ALL NoArg two_visible = (Some TypeError, two_visible)"
    by (simp add: tv emit_def handlers_of_def two_world_eventList EVENT_HIDE_ALL_def
        call_subscriber_def del: One_nat_def)
  have e3: "emit recording_ops (KStr ''menu'') (ShowArg touchless_request) mounted_world
       = (Some TypeError, mounted_world)"
    by (simp add: emit_def handlers_of_def mounted_world_eq EVENT_HIDE_ALL_def
        call_subscriber_def show_def touchless_position)
  show ?thesis using zero_world_id e1 h1 v2 e2 e3 by simp
qed

text \<open>
  C4, as amended. \<open>getMousePosition\<close> returns \<open>clientX\<close> and \<open>clientY\<close> of the event when
  the event has no \<open>changedTouches\<close>, and those of the first entry of \<open>changedTouches\<close>
  when it has one, each coordinate replaced by \<open>0\<close> unless it is a positive number. In a
  reachable state \<open>show\<close> puts the menu at \<open>checkBoundaries\<close> of the explicit position when
  one is given and of \<open>getMousePosition\<close> of the trigger event otherwise, the boundaries
  being those of the attached panel.
\<close>

theorem show_position_clamped:
  "(changedTouches e = None \<longrightarrow>
      getMousePosition e = Inr \<lparr>pos_x = guardCoord (clientX e), pos_y = guardCoord (clientY e)\<rparr>)
   \<and> (changedTouches e = Some (t # ts) \<longrightarrow>
      getMousePosition e =
        Inr \<lparr>pos_x = guardCoord (touch_clientX t), pos_y = guardCoord (touch_clientY t)\<rparr>)
   \<and> guardCoord (JNum n) = (if 0 < n then n else 0)
   \<and> guardCoord JNaN = 0 \<and> guardCoord JUndefined = 0
   \<and> (reachable ops w \<longrightarrow> menus w i = Some m \<longrightarrow>
        (case sp_position params of Some p' \<Rightarrow> Inr p' | None \<Rightarrow> getMousePosition (sp_event params))
           = Inr p \<longrightarrow>
        (\<exists>w' m'. show ops i params w = Inr w' \<and> menus w' i = Some m'
           \<and> \<lparr>pos_x = state_x (state m'), pos_y = state_y (state m')\<rparr> =
               checkBoundaries (attached_node m) (disableBoundariesCheck (props m)) (window w)
                 (pos_x p) (pos_y p)))"
proof -
  have "\<exists>w' m'. show ops i params w = Inr w' \<and> menus w' i = Some m'
           \<and> \<lparr>pos_x = state_x (state m'), pos_y = state_y (state m')\<rparr> =
               checkBoundaries (attached_node m) (disableBoundariesCheck (props m)) (window w)
                 (pos_x p) (pos_y p)"
    if r: "reachable ops w" and m: "menus w i = Some m"
      and p: "(case sp_position params of Some p' \<Rightarrow> Inr p'
               | None \<Rightarrow> getMousePosition (sp_event params)) = Inr p"
  proof -
    have "node_attached m"
      using reachable_inv[OF r] m by (simp add: world_inv_def nodes_inv_def)
    moreover have "show_position params = Inr p"
      using p
      by (cases "sp_position params")
        (simp_all add: show_position_def getMousePosition_stopPropagation)
    ultimately obtain w' m' where "show ops i params w = Inr w'" "menus w' i = Some m'"
      "state m' =
          \<lparr>state_x = pos_x (checkBoundaries (attached_node m) (disableBoundariesCheck (props m))
                              (window w) (pos_x p) (pos_y p)),
           state_y = pos_y (checkBoundaries (attached_node m) (disableBoundariesCheck (props m))
                              (window w) (pos_x p) (pos_y p)),
           visible = True, triggerEvent = Some (stopPropagation (sp_event params)),
           propsFromTrigger = sp_props params, willLeave = False\<rparr>"
      using show_state[OF m, of params p ops] by blast
    then show ?thesis by auto
  qed
  then show ?thesis
    by (simp add: getMousePosition_def guardCoord_def)
qed

theorem show_position_clamped_witness:
  "getMousePosition (sample_event ''contextmenu'') = Inr \<lparr>pos_x = 900, pos_y = 100\<rparr>
   \<and> (\<exists>w' m'. show recording_ops 0 sample_request mounted_world = Inr w' \<and> menus w' 0 = Some m'
         \<and> \<lparr>pos_x = state_x (state m'), pos_y = state_y (state m')\<rparr> = \<lparr>pos_x = 800, pos_y = 100\<rparr>)"
proof -
  have c: "changedTouches (sample_event ''contextmenu'') = None"
    by (simp add: sample_event_def)
  have g: "getMousePosition (sample_event ''contextmenu'') = Inr \<lparr>pos_x = 900, pos_y = 100\<rparr>"
    by (simp add: getMousePosition_def sample_event_def guardCoord_def)
  have p: "(case sp_position sample_request of Some p' \<Rightarrow> Inr p'
            | None \<Rightarrow> getMousePosition (sp_event sample_request)) = Inr \<lparr>pos_x = 900, pos_y = 100\<rparr>"
    by (simp add: sample_request_def g)
  have cb: "checkBoundaries (attached_node hidden_inst) (disableBoundariesCheck (props hidden_inst))
              (window mounted_world) 900 100 = \<lparr>pos_x = 800, pos_y = 100\<rparr>"
    by (simp add: checkBoundaries_sample attached_node_def hidden_inst_def sample_props_def
        sample_node_def mounted_world_eq sample_window_def)
  show ?thesis
    using show_position_clamped[of "sample_event ''contextmenu''" undefined undefined 900
        recording_ops mounted_world 0 hidden_inst sample_request "\<lparr>pos_x = 900, pos_y = 100\<rparr>"]
      c g reachable_mounted_world menus_mounted_world p cb
    by simp
qed

text \<open>
  C4 as stated fails twice: a mouse event with \<open>clientX = -5\<close> gives \<open>x = 0\<close>, and a menu
  200 wide asked to appear at the explicit position (900, 100) in a window 1000 wide is
  put at \<open>x = 800\<close>.
\<close>

theorem show_position_counterexample:
  "getMousePosition ((sample_event ''contextmenu'')\<lparr>clientX := JNum (- 5)\<rparr>)
     = Inr \<lparr>pos_x = 0, pos_y = 100\<rparr>
   \<and> show recording_ops 0 (sample_request\<lparr>sp_position := Some \<lparr>pos_x = 900, pos_y = 100\<rparr>\<rparr>)
        mounted_world = Inr visible_world
   \<and> menus visible_world 0 = Some shown_inst
   \<and> state_x (state shown_inst) = 800"
proof -
  have "show recording_ops 0 (sample_request\<lparr>sp_position := Some \<lparr>pos_x = 900, pos_y = 100\<rparr>\<rparr>)
        mounted_world = Inr visible_world"
    by (simp add: visible_world_eq mounted_world_eq
      show_def show_position_def sample_request_def
      sample_event_def stopPropagation_def hidden_inst_def checkBoundaries_def
      js_add_def js_sub_def fl_numeral sample_props_def sample_window_def sample_node_def
      setState_def reducer_def spread_def
      show_update_def initialState_def upd_inst_def run_effects_def render_panel_def
      cleanup_domEvents_def removeEventListener_def hideOnEvents_def effect_collectItems_def
      recording_ops_def effect_checkBoundaries_def position_update_def no_fields_def
      effect_domEvents_def addEventListener_def clearTimeout_def notify_shown_def shown_inst_def
      menu_listeners_def Let_def)
  then show ?thesis
    by (simp add: menus_visible_world shown_inst_def getMousePosition_def sample_event_def
        guardCoord_def)
qed

text \<open>
  C5. \<open>hide\<close> returns at once, and the world (the menu state with it) is unchanged,
  exactly when it is called with an event whose \<open>button\<close> is \<open>2\<close> or whose \<open>ctrlKey\<close>
  is set, and whose type is not \<open>contextmenu\<close>; with any other event, or with none, the
  menu is not visible afterwards.
\<close>

theorem hide_early_return:
  "(hide_ignores e \<longleftrightarrow>
      (\<exists>ev. e = Some ev \<and> (button ev = JNum 2 \<or> ctrlKey ev = Some True)
            \<and> ev_type ev \<noteq> ''contextmenu''))
   \<and> (hide_ignores e \<longrightarrow> hide ops i e w = w)
   \<and> (\<not> hide_ignores e \<longrightarrow> menus w i = Some m \<longrightarrow>
        (\<exists>m'. menus (hide ops i e w) i = Some m' \<and> visible (state m') = False))"
proof (intro conjI impI)
  show "hide_ignores e \<longleftrightarrow>
      (\<exists>ev. e = Some ev \<and> (button ev = JNum 2 \<or> ctrlKey ev = Some True)
            \<and> ev_type ev \<noteq> ''contextmenu'')"
    by (cases e) (simp_all add: hide_ignores_def)
next
  assume "hide_ignores e"
  then show "hide ops i e w = w" by (rule hide_unchanged)
next
  assume "\<not> hide_ignores e" and "menus w i = Some m"
  then show "\<exists>m'. menus (hide ops i e w) i = Some m' \<and> visible (state m') = False"
    using hide_state[of w i m ops e] by (auto simp: reducer_hide_update)
qed

theorem hide_early_return_witness:
  "hide_ignores (Some ((sample_event ''click'')\<lparr>ctrlKey := Some True\<rparr>))
   \<and> hide recording_ops 0 (Some ((sample_event ''click'')\<lparr>ctrlKey := Some True\<rparr>)) visible_world
       = visible_world
   \<and> \<not> hide_ignores (Some ((sample_event ''contextmenu'')\<lparr>button := JNum 2\<rparr>))
   \<and> (\<exists>m'. menus (hide recording_ops 0 (Some ((sample_event ''contextmenu'')\<lparr>button := JNum 2\<rparr>))
                  visible_world) 0 = Some m' \<and> visible (state m') = False)"
proof -
  have 1: "hide_ignores (Some ((sample_event ''click'')\<lparr>ctrlKey := Some True\<rparr>))"
    by (simp add: hide_ignores_def sample_event_def)
  have 2: "\<not> hide_ignores (Some ((sample_event ''contextmenu'')\<lparr>button := JNum 2\<rparr>))"
    by (simp add: hide_ignores_def sample_event_def)
  show ?thesis
    using 1 2 menus_visible_world
      hide_early_return[of "Some ((sample_event ''click'')\<lparr>ctrlKey := Some True\<rparr>)"
        recording_ops 0 visible_world shown_inst]
      hide_early_return[of "Some ((sample_event ''contextmenu'')\<lparr>button := JNum 2\<rparr>)"
        recording_ops 0 visible_world shown_inst]
    by blast
qed

text \<open>
  C6. In every reachable state a mounted menu has its \<open>keydown\<close> listener and its
  \<open>hide\<close> listeners for \<open>resize\<close>, \<open>contextmenu\<close>, \<open>click\<close>, \<open>scroll\<close> and \<open>blur\<close> on
  \<open>window\<close> if and only if it is visible. A step that makes it visible is the emission of
  its id with a show request, and \<open>show\<close> sets \<open>visible\<close> together with \<open>x\<close>, \<open>y\<close>,
  \<open>triggerEvent\<close> and \<open>propsFromTrigger\<close>; a step that makes it invisible is an emission
  or a window event, the two ways \<open>hide\<close> is called, and \<open>hide\<close> changes \<open>visible\<close> only;
  the position update of the boundary effect leaves \<open>visible\<close> alone.
\<close>

theorem listeners_iff_visible:
  assumes "reachable ops w" and "menus w i = Some m"
  shows "((''keydown'', KeyboardOf i) \<in> set (windowListeners w) \<longleftrightarrow> visible (state m))
   \<and> (\<forall>ev\<in>set hideOnEvents. (ev, HideOn i) \<in> set (windowListeners w) \<longleftrightarrow> visible (state m))
   \<and> (\<forall>inp m'. menus (step ops inp w) i = Some m' \<longrightarrow>
          visible (state m') \<noteq> visible (state m) \<longrightarrow>
          (if visible (state m')
           then (\<exists>params. inp = Emit (menu_id (props m)) (ShowArg params))
           else (\<exists>k a. inp = Emit k a) \<or> (\<exists>e. inp = WindowEvent e)))
   \<and> (\<forall>params p. show_position params = Inr p \<longrightarrow>
          (\<exists>w' m'. show ops i params w = Inr w' \<and> menus w' i = Some m'
             \<and> state m' =
                 \<lparr>state_x = pos_x (checkBoundaries (attached_node m)
                               (disableBoundariesCheck (props m)) (window w) (pos_x p) (pos_y p)),
                  state_y = pos_y (checkBoundaries (attached_node m)
                               (disableBoundariesCheck (props m)) (window w) (pos_x p) (pos_y p)),
                  visible = True, triggerEvent = Some (stopPropagation (sp_event params)),
                  propsFromTrigger = sp_props params, willLeave = False\<rparr>))
   \<and> (\<forall>e. \<not> hide_ignores e \<longrightarrow>
          (\<exists>m'. menus (hide ops i e w) i = Some m' \<and> state m' = (state m)\<lparr>visible := False\<rparr>))
   \<and> (\<forall>q. visible (reducer (state m) (position_update q)) = visible (state m))"
proof -
  have inv: "listeners_inv w" "nodes_inv w"
    using reachable_inv[OF assms(1)] by (simp_all add: world_inv_def)
  have v: "visible_in w i = visible (state m)" using assms(2) by (simp add: visible_in_def)
  have 1: "(''keydown'', KeyboardOf i) \<in> set (windowListeners w) \<longleftrightarrow> visible (state m)"
    using inv(1)[unfolded listeners_inv_def, rule_format, of "''keydown''" "KeyboardOf i"] v
    by (simp add: menu_listeners_def)
  have 2: "\<forall>ev\<in>set hideOnEvents. (ev, HideOn i) \<in> set (windowListeners w) \<longleftrightarrow> visible (state m)"
  proof
    fix ev assume "ev \<in> set hideOnEvents"
    then have "(ev, HideOn i) \<in> set (menu_listeners i)" by (simp add: menu_listeners_def)
    then show "(ev, HideOn i) \<in> set (windowListeners w) \<longleftrightarrow> visible (state m)"
      using inv(1)[unfolded listeners_inv_def, rule_format, of ev "HideOn i"] v by simp
  qed
  have 3: "\<forall>inp m'. menus (step ops inp w) i = Some m' \<longrightarrow>
          visible (state m') \<noteq> visible (state m) \<longrightarrow>
          (if visible (state m')
           then (\<exists>params. inp = Emit (menu_id (props m)) (ShowArg params))
           else (\<exists>k a. inp = Emit k a) \<or> (\<exists>e. inp = WindowEvent e))"
    using visible_change_step[OF assms] by blast
  have na: "node_attached m" using inv(2) assms(2) by (simp add: nodes_inv_def)
  have 4: "\<forall>params p. show_position params = Inr p \<longrightarrow>
          (\<exists>w' m'. show ops i params w = Inr w' \<and> menus w' i = Some m'
             \<and> state m' =
                 \<lparr>state_x = pos_x (checkBoundaries (attached_node m)
                               (disableBoundariesCheck (props m)) (window w) (pos_x p) (pos_y p)),
                  state_y = pos_y (checkBoundaries (attached_node m)
                               (disableBoundariesCheck (props m)) (window w) (pos_x p) (pos_y p)),
                  visible = True, triggerEvent = Some (stopPropagation (sp_event params)),
                  propsFromTrigger = sp_props params, willLeave = False\<rparr>)"
    using show_state[OF assms(2) na] by blast
  have 5: "\<forall>e. \<not> hide_ignores e \<longrightarrow>
          (\<exists>m'. menus (hide ops i e w) i = Some m' \<and> state m' = (state m)\<lparr>visible := False\<rparr>)"
  proof (intro allI impI)
    fix e assume "\<not> hide_ignores e"
    then show "\<exists>m'. menus (hide ops i e w) i = Some m' \<and> state m' = (state m)\<lparr>visible := False\<rparr>"
      using hide_state[OF assms(2), of ops e] by (simp add: reducer_hide_update)
  qed
  have 6: "\<forall>q. visible (reducer (state m) (position_update q)) = visible (state m)"
    by (simp add: reducer_simps)
  show ?thesis using 1 2 3 4 5 6 by blast
qed

theorem listeners_iff_visible_witness:
  "(''keydown'', KeyboardOf 0) \<in> set (windowListeners visible_world)
   \<and> (''click'', HideOn 0) \<in> set (windowListeners visible_world)
   \<and> (''keydown'', KeyboardOf 0) \<notin> set (windowListeners mounted_world)
   \<and> (''click'', HideOn 0) \<notin> set (windowListeners mounted_world)
   \<and> (\<exists>m'. menus (hide recording_ops 0 None visible_world) 0 = Some m'
         \<and> state m' = (state shown_inst)\<lparr>visible := False\<rparr>)"
proof -
  note vis = listeners_iff_visible[OF reachable_visible_world menus_visible_world]
  note hid = listeners_iff_visible[OF reachable_mounted_world menus_mounted_world]
  have v: "visible (state shown_inst)" "\<not> visible (state hidden_inst)"
    by (simp_all add: shown_inst_def hidden_inst_def initialState_def)
  have c: "''click'' \<in> set hideOnEvents" by (simp add: hideOnEvents_def)
  have n: "\<not> hide_ignores None" by (simp add: hide_ignores_def)
  have 1: "(''keydown'', KeyboardOf 0) \<in> set (windowListeners visible_world)"
    using vis[THEN conjunct1] v by simp
  have 2: "(''click'', HideOn 0) \<in> set (windowListeners visible_world)"
    using vis[THEN conjunct2, THEN conjunct1] v c by blast
  have 3: "(''keydown'', KeyboardOf 0) \<notin> set (windowListeners mounted_world)"
    using hid[THEN conjunct1] v by simp
  have 4: "(''click'', HideOn 0) \<notin> set (windowListeners mounted_world)"
    using hid[THEN conjunct2, THEN conjunct1] v c by blast
  have 5: "\<exists>m'. menus (hide recording_ops 0 None visible_world) 0 = Some m'
         \<and> state m' = (state shown_inst)\<lparr>visible := False\<rparr>"
    using vis[THEN conjunct2, THEN conjunct2, THEN conjunct2, THEN conjunct2, THEN conjunct1] n
    by blast
  show ?thesis using 1 2 3 4 5 by blast
qed

text \<open>
  C7. The claim has \<open>setPosition\<close> anchor the panel to the right of its parent first and
  test the bounding rectangle then. The code reads the rectangle before it restores the
  default anchoring. A panel that does not fit on the right is moved to the left of its
  parent by a first call; at the next call the rectangle read is that of the panel on
  the left, which fits, so that the panel is left anchored to the right, from 900 to
  1100 in a window 1000 wide. In the order of the claim the panel stays on the left.
\<close>

theorem setPosition_stale_rect:
  "setPosition sample_spacing sample_window (Some (edge_panel right_of_parent)) =
       Some (edge_panel left_of_parent)
   \<and> rect_right (getBoundingClientRect (edge_panel left_of_parent)) = 700
   \<and> setPosition sample_spacing sample_window (Some (edge_panel left_of_parent)) =
       Some (edge_panel right_of_parent)
   \<and> rect_right (getBoundingClientRect (edge_panel right_of_parent)) = 1100
   \<and> innerWidth sample_window = 1000
   \<and> setPosition_anchor_first sample_spacing sample_window (Some (edge_panel left_of_parent)) =
       Some (edge_panel left_of_parent)"
  by (simp add: setPosition_def setPosition_anchor_first_def Let_def sidePadding_def
      negativePadding_def sample_spacing_def edge_panel_def edge_layout_def right_of_parent_def
      left_of_parent_def getBoundingClientRect_def sample_window_def)

text \<open>
  C8. \<open>getMousePosition\<close> returns a position unless \<open>changedTouches\<close> is an empty list,
  and the position it returns has \<open>x \<ge> 0\<close> and \<open>y \<ge> 0\<close>: a coordinate that is undefined,
  \<open>NaN\<close>, zero or negative is replaced by \<open>0\<close>, a positive one is kept.
\<close>

theorem getMousePosition_nonneg:
  "(changedTouches e \<noteq> Some [] \<longrightarrow>
      (\<exists>p. getMousePosition e = Inr p \<and> 0 \<le> pos_x p \<and> 0 \<le> pos_y p))
   \<and> (\<forall>p. getMousePosition e = Inr p \<longrightarrow> 0 \<le> pos_x p \<and> 0 \<le> pos_y p)
   \<and> guardCoord JUndefined = 0 \<and> guardCoord JNaN = 0
   \<and> (n \<le> 0 \<longrightarrow> guardCoord (JNum n) = 0)
   \<and> (0 < n \<longrightarrow> guardCoord (JNum n) = n)
   \<and> (changedTouches e = None \<longrightarrow>
        getMousePosition e = Inr \<lparr>pos_x = guardCoord (clientX e), pos_y = guardCoord (clientY e)\<rparr>)"
proof -
  have g: "0 \<le> guardCoord v" for v by (cases v) (simp_all add: guardCoord_def)
  have 1: "changedTouches e \<noteq> Some [] \<longrightarrow>
      (\<exists>p. getMousePosition e = Inr p \<and> 0 \<le> pos_x p \<and> 0 \<le> pos_y p)"
    by (simp add: getMousePosition_def g split: option.splits list.splits)
  have 2: "\<forall>p. getMousePosition e = Inr p \<longrightarrow> 0 \<le> pos_x p \<and> 0 \<le> pos_y p"
    by (auto simp: getMousePosition_def g split: option.splits list.splits)
  have 3: "guardCoord JUndefined = 0 \<and> guardCoord JNaN = 0
     \<and> (n \<le> 0 \<longrightarrow> guardCoord (JNum n) = 0) \<and> (0 < n \<longrightarrow> guardCoord (JNum n) = n)"
    by (simp add: guardCoord_def)
  have 4: "changedTouches e = None \<longrightarrow>
        getMousePosition e = Inr \<lparr>pos_x = guardCoord (clientX e), pos_y = guardCoord (clientY e)\<rparr>"
    by (simp add: getMousePosition_def)
  show ?thesis using 1 2 3 4 by blast
qed

theorem getMousePosition_nonneg_witness:
  "changedTouches ((sample_event ''keydown'')\<lparr>clientX := JNum (- 5), clientY := JUndefined\<rparr>)
     \<noteq> Some []
   \<and> getMousePosition ((sample_event ''keydown'')\<lparr>clientX := JNum (- 5), clientY := JUndefined\<rparr>)
     = Inr \<lparr>pos_x = 0, pos_y = 0\<rparr>"
proof -
  let ?e = "(sample_event ''keydown'')\<lparr>clientX := JNum (- 5), clientY := JUndefined\<rparr>"
  have c: "changedTouches ?e = None" by (simp add: sample_event_def)
  have x: "clientX ?e = JNum (- 5)" "clientY ?e = JUndefined" by (simp_all add: sample_event_def)
  show ?thesis using getMousePosition_nonneg[of ?e "- 5"] c x by simp
qed

text \<open>
  C9. The state update of \<open>hide\<close> leaves \<open>x\<close>, \<open>y\<close>, \<open>triggerEvent\<close>,
  \<open>propsFromTrigger\<close> and \<open>willLeave\<close> as they were, and a state that is not visible is
  unchanged entirely; the same holds of the state of the menu after \<open>hide\<close> with the
  render and the effects that follow it.
\<close>

theorem hide_frame:
  "state_x (reducer s hide_update) = state_x s
   \<and> state_y (reducer s hide_update) = state_y s
   \<and> triggerEvent (reducer s hide_update) = triggerEvent s
   \<and> propsFromTrigger (reducer s hide_update) = propsFromTrigger s
   \<and> willLeave (reducer s hide_update) = willLeave s
   \<and> (\<not> visible s \<longrightarrow> reducer s hide_update = s)
   \<and> (menus w i = Some m \<longrightarrow>
        (\<exists>m'. menus (hide ops i e w) i = Some m'
           \<and> state_x (state m') = state_x (state m)
           \<and> state_y (state m') = state_y (state m)
           \<and> triggerEvent (state m') = triggerEvent (state m)
           \<and> propsFromTrigger (state m') = propsFromTrigger (state m)
           \<and> willLeave (state m') = willLeave (state m)
           \<and> (\<not> visible (state m) \<longrightarrow> state m' = state m)))"
proof -
  have "menus w i = Some m \<Longrightarrow>
        (\<exists>m'. menus (hide ops i e w) i = Some m'
           \<and> state_x (state m') = state_x (state m)
           \<and> state_y (state m') = state_y (state m)
           \<and> triggerEvent (state m') = triggerEvent (state m)
           \<and> propsFromTrigger (state m') = propsFromTrigger (state m)
           \<and> willLeave (state m') = willLeave (state m)
           \<and> (\<not> visible (state m) \<longrightarrow> state m' = state m))"
    using hide_state[of w i m ops e] by (auto simp: reducer_hide_update)
  then show ?thesis by (simp add: reducer_hide_update)
qed

theorem hide_frame_witness:
  "\<not> visible (initialState :: unit MenuState)
   \<and> reducer (initialState :: unit MenuState) hide_update = initialState
   \<and> (\<exists>m'. menus (hide recording_ops 0 None visible_world) 0 = Some m'
         \<and> state_x (state m') = 800 \<and> state_y (state m') = 100
         \<and> triggerEvent (state m') = Some (stopPropagation (sample_event ''contextmenu'')))"
proof -
  have 1: "\<not> visible (initialState :: unit MenuState)" by (simp add: initialState_def)
  have 2: "state_x (state shown_inst) = 800" "state_y (state shown_inst) = 100"
    "triggerEvent (state shown_inst) = Some (stopPropagation (sample_event ''contextmenu''))"
    by (simp_all add: shown_inst_def)
  show ?thesis
    using 1 2 menus_visible_world
      hide_frame[of "initialState :: unit MenuState" visible_world 0 shown_inst recording_ops None]
    by auto
qed




end
